theory Spec2Isabelle
  imports Complex_Main "HOL-Library.Finite_Map"
begin

section \<open>The channel router of nextpnr-xilinx: data model\<close>

text \<open>
  The development embeds \<^verbatim>\<open>common/channel_router.cc\<close> and
  \<^verbatim>\<open>common/settings.h\<close>.  C++ \<^verbatim>\<open>int\<close> values are HOL integers (signed overflow is
  undefined behaviour in C++ and is not modelled), \<^verbatim>\<open>float\<close> and \<^verbatim>\<open>double\<close> values are
  real numbers (rounding is not modelled), a \<^verbatim>\<open>std::vector\<close> is a list, a
  \<^verbatim>\<open>boost::container::flat_map\<close> is a finite map.  Everything that throws or asserts in the
  source returns an error value here.  A \<^verbatim>\<open>float\<close> division by zero does not throw: its
  result is an infinity or a NaN, which is no real number, and the function that computes it
  returns \<open>NotFinite\<close> here.

  Field names of the source that would clash with HOL constants or with each other carry a
  prefix: \<open>nx\<close>, \<open>ny\<close>, \<open>ntype\<close> are \<^verbatim>\<open>ChannelNode::x\<close>, \<^verbatim>\<open>y\<close>, \<^verbatim>\<open>type\<close>;
  \<open>ch_dir\<close>, \<open>ch_length\<close>, \<open>ch_cost\<close>, \<open>ch_width\<close>, \<open>ch_downhill\<close> are the fields of
  \<^verbatim>\<open>Channel\<close>; \<open>arc_bb\<close> and \<open>net_bb\<close> are the two \<^verbatim>\<open>bb\<close> fields; \<open>qn_node\<close>,
  \<open>qn_prev\<close>, \<open>qn_score\<close> are \<^verbatim>\<open>QueuedNode::node\<close>, \<^verbatim>\<open>prev\<close>, \<^verbatim>\<open>score\<close>.

  The headers \<^verbatim>\<open>channel_router.h\<close>, \<^verbatim>\<open>nextpnr.h\<close>, \<^verbatim>\<open>util.h\<close> and \<^verbatim>\<open>log.h\<close> are not
  among the sources at hand.  The records below carry the fields that the two source files
  read and write.  \<open>ctx_nets\<close> holds the nets of \<^verbatim>\<open>ctx->nets\<close> in the order in which
  \<^verbatim>\<open>sorted(ctx->nets)\<close> enumerates them; a \<^verbatim>\<open>NetInfo *\<close> is the name of the net, a null
  pointer is \<open>None\<close>; an \<^verbatim>\<open>IdString\<close> is the string it interns; the interface of
  \<^verbatim>\<open>ChannelGraph\<close> is a record of its four results.
\<close>

datatype error =
    OutOfRange          \<comment> \<open>\<^verbatim>\<open>std::out_of_range\<close> thrown by \<^verbatim>\<open>at\<close>\<close>
  | AssertionFailure    \<comment> \<open>a failed \<^verbatim>\<open>NPNR_ASSERT\<close>\<close>
  | LengthError         \<comment> \<open>\<^verbatim>\<open>std::length_error\<close> thrown by \<^verbatim>\<open>resize\<close>\<close>
  | LogError            \<comment> \<open>\<^verbatim>\<open>log_error\<close>\<close>
  | DivisionByZero      \<comment> \<open>an \<^verbatim>\<open>int\<close> division by zero\<close>
  | NotFinite           \<comment> \<open>no exception: a \<^verbatim>\<open>float\<close> result that is an infinity or a NaN\<close>

record ChannelNode =
  nx :: int
  ny :: int
  ntype :: int

datatype ChannelDir = DIR_EAST | DIR_WEST | DIR_NORTH | DIR_SOUTH

record ChannelPIP =
  src_along :: int
  dst_type :: int
  dst_along :: int

record Channel =
  ch_dir :: ChannelDir
  ch_length :: int
  ch_cost :: real
  ch_width :: int
  ch_downhill :: "ChannelPIP list"

record ArcBounds =
  x0 :: int
  y0 :: int
  x1 :: int
  y1 :: int

record NodeScore =
  cost :: real
  togo_cost :: real
  delay :: real

record Visit =
  dirty :: bool
  visited :: bool
  bwd :: ChannelNode
  score :: NodeScore

record PerNodeData =
  downhill :: "ChannelNode list"
  uphill :: "ChannelNode list"
  bound_nets :: "(int, int \<times> ChannelNode) fmap"
  hist_cong_cost :: real
  unavailable :: bool
  reserved_net :: int
  visit :: Visit

record PerArcData =
  sink_node :: ChannelNode
  arc_bb :: ArcBounds
  routed :: bool

record PerNetData =
  src_node :: ChannelNode
  arcs :: "PerArcData list"
  net_bb :: ArcBounds
  cx :: int
  cy :: int
  hpwl :: int
  total_route_us :: int

record PortRef =
  cell :: "string option"
  port :: string

record NetInfo =
  name :: string
  udata :: int
  driver :: PortRef
  users :: "PortRef list"

record Context =
  ctx_nets :: "NetInfo list"
  settings :: "(string, string) fmap"
  debug :: bool

record QueuedNode =
  qn_node :: ChannelNode
  qn_prev :: ChannelNode
  qn_score :: NodeScore
  randtag :: int

text \<open>
  Modelled from the spec: \<^verbatim>\<open>ChannelRouterCfg\<close> is declared in \<^verbatim>\<open>channel_router.h\<close>; the
  specification lists \<^verbatim>\<open>bb_margin_x\<close> and \<^verbatim>\<open>bb_margin_y\<close> as \<^verbatim>\<open>int\<close> and the three
  togo costs and the bias factor as \<^verbatim>\<open>float\<close>.
\<close>

record ChannelRouterCfg =
  bb_margin_x :: int
  bb_margin_y :: int
  togo_cost_dx :: real
  togo_cost_dy :: real
  togo_cost_adder :: real
  bias_cost_factor :: real

record ChannelGraph =
  get_width :: int
  get_height :: int
  get_channels :: "Channel list"
  get_source_node :: "NetInfo \<Rightarrow> ChannelNode"
  get_sink_node :: "NetInfo \<Rightarrow> PortRef \<Rightarrow> ChannelNode"

record ChannelRouterState =
  cfg :: ChannelRouterCfg
  width :: int
  height :: int
  nodes :: "PerNodeData list list"
  channel_types :: "Channel list"
  nets_by_udata :: "string option list"
  nets :: "PerNetData list"
  curr_cong_weight :: real
  hist_cong_weight :: real
  estimate_weight :: real

text \<open>
  The declaration of \<^verbatim>\<open>ChannelNode\<close> is in \<^verbatim>\<open>channel_router.h\<close>; the value its default
  constructor builds is only ever stored in a fresh \<^verbatim>\<open>bound_nets\<close> entry, where
  \<^verbatim>\<open>bind_node_internal\<close> overwrites it before anything reads it.
\<close>

definition ChannelNode_default :: ChannelNode where
  "ChannelNode_default = \<lparr>nx = 0, ny = 0, ntype = 0\<rparr>"

definition Visit_default :: Visit where
  "Visit_default = \<lparr>dirty = False, visited = False, bwd = ChannelNode_default,
     score = \<lparr>cost = 0, togo_cost = 0, delay = 0\<rparr>\<rparr>"

definition PerNodeData_default :: PerNodeData where
  "PerNodeData_default = \<lparr>downhill = [], uphill = [], bound_nets = fmempty,
     hist_cong_cost = 1, unavailable = False, reserved_net = - 1, visit = Visit_default\<rparr>"

subsection \<open>Vectors\<close>

text \<open>\<^verbatim>\<open>v.at(i)\<close> with an \<^verbatim>\<open>int\<close> index: a negative index converts to a huge
  \<^verbatim>\<open>size_t\<close>, so it throws like any index beyond the end.\<close>

definition vec_at :: "'a list \<Rightarrow> int \<Rightarrow> error + 'a" where
  "vec_at v i = (if 0 \<le> i \<and> i < int (length v) then Inr (v ! nat i) else Inl OutOfRange)"

text \<open>Writing through the reference \<^verbatim>\<open>nodes.at(i).at(j)\<close>, once both indices were checked.\<close>

definition update2 :: "'a list list \<Rightarrow> int \<Rightarrow> int \<Rightarrow> ('a \<Rightarrow> 'a) \<Rightarrow> 'a list list" where
  "update2 v i j f = v[nat i := (v ! nat i)[nat j := f (v ! nat i ! nat j)]]"

section \<open>Node lookup, binding and unbinding\<close>

definition node_index :: "ChannelRouterState \<Rightarrow> ChannelNode \<Rightarrow> int" where
  "node_index s node = ny node * width s + nx node"

definition node_data :: "ChannelRouterState \<Rightarrow> ChannelNode \<Rightarrow> error + PerNodeData" where
  "node_data s node =
     (if \<not> (nx node \<ge> 0 \<and> nx node < width s) then Inl AssertionFailure
      else if \<not> (ny node \<ge> 0 \<and> ny node < height s) then Inl AssertionFailure
      else case vec_at (nodes s) (node_index s node) of
             Inl e \<Rightarrow> Inl e
           | Inr l \<Rightarrow> vec_at l (ntype node))"

text \<open>Assignment through the reference that \<^verbatim>\<open>node_data(node)\<close> returned.\<close>

definition node_data_update ::
  "ChannelRouterState \<Rightarrow> ChannelNode \<Rightarrow> (PerNodeData \<Rightarrow> PerNodeData) \<Rightarrow> ChannelRouterState" where
  "node_data_update s node f = s\<lparr>nodes := update2 (nodes s) (node_index s node) (ntype node) f\<rparr>"

definition bind_node_internal ::
  "ChannelRouterState \<Rightarrow> NetInfo \<Rightarrow> ChannelNode \<Rightarrow> ChannelNode \<Rightarrow> error + ChannelRouterState" where
  "bind_node_internal s net node uphill_node =
     (case node_data s node of
        Inl e \<Rightarrow> Inl e
      | Inr wd \<Rightarrow>
          (let b = (case fmlookup (bound_nets wd) (udata net) of
                      None \<Rightarrow> (0, ChannelNode_default)
                    | Some b \<Rightarrow> b);
               first = fst b + 1
           in if first = 1 then
                Inr (node_data_update s node
                      (\<lambda>w. w\<lparr>bound_nets := fmupd (udata net) (first, uphill_node) (bound_nets w)\<rparr>))
              else if snd b = uphill_node then
                Inr (node_data_update s node
                      (\<lambda>w. w\<lparr>bound_nets := fmupd (udata net) (first, snd b) (bound_nets w)\<rparr>))
              else Inl AssertionFailure))"

definition unbind_node_internal ::
  "ChannelRouterState \<Rightarrow> NetInfo \<Rightarrow> ChannelNode \<Rightarrow> error + ChannelRouterState" where
  "unbind_node_internal s net node =
     (case node_data s node of
        Inl e \<Rightarrow> Inl e
      | Inr wd \<Rightarrow>
          (case fmlookup (bound_nets wd) (udata net) of
             None \<Rightarrow> Inl OutOfRange
           | Some b \<Rightarrow>
               (let first = fst b - 1
                in if first = 0 then
                     Inr (node_data_update s node
                           (\<lambda>w. w\<lparr>bound_nets := fmdrop (udata net) (bound_nets w)\<rparr>))
                   else
                     Inr (node_data_update s node
                           (\<lambda>w. w\<lparr>bound_nets := fmupd (udata net) (first, snd b) (bound_nets w)\<rparr>)))))"

section \<open>Loops and arithmetic of the source language\<close>

text \<open>A \<^verbatim>\<open>for\<close> loop over a range whose body may throw: the first error ends the loop.\<close>

fun for_each :: "'a list \<Rightarrow> ('a \<Rightarrow> 's \<Rightarrow> error + 's) \<Rightarrow> 's \<Rightarrow> error + 's" where
  "for_each [] body s = Inr s"
| "for_each (a # as) body s =
     (case body a s of Inl e \<Rightarrow> Inl e | Inr s' \<Rightarrow> for_each as body s')"

text \<open>\<^verbatim>\<open>v.resize(n)\<close>: cut the vector or pad it with value-initialised elements.\<close>

definition resize :: "'a list \<Rightarrow> nat \<Rightarrow> 'a \<Rightarrow> 'a list" where
  "resize v n d = take n v @ replicate (n - length v) d"

text \<open>Division of \<^verbatim>\<open>int\<close> by \<^verbatim>\<open>int\<close> in C++ truncates towards zero; the conversion of a
  \<^verbatim>\<open>float\<close> to \<^verbatim>\<open>int\<close> drops the fractional part.\<close>

definition int_div :: "int \<Rightarrow> int \<Rightarrow> int" where
  "int_div a b = (if (a < 0) = (b < 0) then \<bar>a\<bar> div \<bar>b\<bar> else - (\<bar>a\<bar> div \<bar>b\<bar>))"

definition float_to_int :: "real \<Rightarrow> int" where
  "float_to_int r = (if 0 \<le> r then \<lfloor>r\<rfloor> else \<lceil>r\<rceil>)"

text \<open>
  Division of \<^verbatim>\<open>float\<close> by a divisor that was converted from an \<^verbatim>\<open>int\<close>.  With the
  divisor zero the quotient is an infinity or a NaN, and it stays one through every
  multiplication, addition and division by such a divisor that follows.
\<close>

definition float_div :: "real \<Rightarrow> real \<Rightarrow> error + real" where
  "float_div a b = (if b = 0 then Inl NotFinite else Inr (a / b))"

definition INT_MAX :: int where
  "INT_MAX = 2147483647"

definition INT_MIN :: int where
  "INT_MIN = - 2147483648"

section \<open>Graph setup\<close>

text \<open>The two \<^verbatim>\<open>switch\<close> statements of \<^verbatim>\<open>setup_nodes\<close>: the cell \<open>(x, y)\<close> moved against
  the direction of the channel by \<open>along\<close>.\<close>

fun displace :: "ChannelDir \<Rightarrow> int \<Rightarrow> int \<times> int \<Rightarrow> int \<times> int" where
  "displace DIR_EAST along (x, y) = (x - along, y)"
| "displace DIR_WEST along (x, y) = (x + along, y)"
| "displace DIR_NORTH along (x, y) = (x, y - along)"
| "displace DIR_SOUTH along (x, y) = (x, y + along)"

text \<open>The body of the innermost loop, for the downhill template \<open>dh\<close> of the channel type
  \<open>c\<close> with index \<open>t\<close> at the cell \<open>(x, y)\<close>.\<close>

definition setup_downhill ::
  "int \<Rightarrow> int \<Rightarrow> int \<Rightarrow> Channel \<Rightarrow> ChannelPIP \<Rightarrow> ChannelRouterState \<Rightarrow> error + ChannelRouterState" where
  "setup_downhill x y t c dh s =
     (if \<not> src_along dh \<le> ch_length c then Inl AssertionFailure
      else case displace (ch_dir c) (src_along dh) (x, y) of (start_x, start_y) \<Rightarrow>
        (case vec_at (channel_types s) (dst_type dh) of
           Inl e \<Rightarrow> Inl e
         | Inr d \<Rightarrow>
             if \<not> dst_along dh \<le> ch_length d then Inl AssertionFailure
             else case displace (ch_dir d) (dst_along dh) (x, y) of (end_x, end_y) \<Rightarrow>
               (case vec_at (nodes s) (start_y * width s + start_x) of
                  Inl e \<Rightarrow> Inl e
                | Inr src_row \<Rightarrow>
               (case vec_at src_row t of
                  Inl e \<Rightarrow> Inl e
                | Inr src \<Rightarrow>
               (case vec_at (nodes s) (end_y * width s + end_x) of
                  Inl e \<Rightarrow> Inl e
                | Inr dst_row \<Rightarrow>
               (case vec_at dst_row (dst_type dh) of
                  Inl e \<Rightarrow> Inl e
                | Inr dst \<Rightarrow>
                    Inr (s\<lparr>nodes :=
                      update2
                        (update2 (nodes s) (start_y * width s + start_x) t
                          (\<lambda>w. w\<lparr>downhill := downhill w @
                             [\<lparr>nx = end_x, ny = end_y, ntype = dst_type dh\<rparr>]\<rparr>))
                        (end_y * width s + end_x) (dst_type dh)
                        (\<lambda>w. w\<lparr>uphill := uphill w @
                           [\<lparr>nx = start_x, ny = start_y, ntype = t\<rparr>]\<rparr>)\<rparr>)))))))"

definition setup_type :: "int \<Rightarrow> int \<Rightarrow> int \<Rightarrow> ChannelRouterState \<Rightarrow> error + ChannelRouterState" where
  "setup_type x y t s =
     (case vec_at (channel_types s) t of
        Inl e \<Rightarrow> Inl e
      | Inr c \<Rightarrow> for_each (ch_downhill c) (setup_downhill x y t c) s)"

definition resize_cell :: "int \<Rightarrow> int \<Rightarrow> ChannelRouterState \<Rightarrow> error + ChannelRouterState" where
  "resize_cell y x s =
     (case vec_at (nodes s) (y * width s + x) of
        Inl e \<Rightarrow> Inl e
      | Inr l \<Rightarrow>
          Inr (s\<lparr>nodes := (nodes s)[nat (y * width s + x) :=
                 resize l (length (channel_types s)) PerNodeData_default]\<rparr>))"

definition setup_nodes :: "ChannelGraph \<Rightarrow> ChannelRouterState \<Rightarrow> error + ChannelRouterState" where
  "setup_nodes g s0 =
     (let s1 = s0\<lparr>width := get_width g, height := get_height g\<rparr>
      in if width s1 * height s1 < 0 then Inl LengthError
         else
           let s2 = s1\<lparr>nodes := resize (nodes s1) (nat (width s1 * height s1)) []\<rparr>;
               s3 = s2\<lparr>channel_types := get_channels g\<rparr>
           in case for_each [0..height s3 - 1]
                     (\<lambda>y. for_each [0..width s3 - 1] (resize_cell y)) s3 of
                Inl e \<Rightarrow> Inl e
              | Inr s4 \<Rightarrow>
                  for_each [0..height s4 - 1]
                    (\<lambda>y. for_each [0..width s4 - 1]
                      (\<lambda>x. for_each [0..int (length (channel_types s4)) - 1]
                        (setup_type x y))) s4)"

section \<open>Net setup\<close>

definition PerArcData_default :: PerArcData where
  "PerArcData_default = \<lparr>sink_node = ChannelNode_default,
     arc_bb = \<lparr>x0 = 0, y0 = 0, x1 = 0, y1 = 0\<rparr>, routed = False\<rparr>"

text \<open>The body of the loop over the users of the net \<open>ni\<close>; \<open>nd\<close> is \<^verbatim>\<open>nets.at(i)\<close>.\<close>

definition setup_arc ::
  "ChannelGraph \<Rightarrow> NetInfo \<Rightarrow> ChannelNode \<Rightarrow> nat \<Rightarrow> PerNetData \<Rightarrow> error + PerNetData" where
  "setup_arc g ni src j nd =
     (case vec_at (users ni) (int j) of
        Inl e \<Rightarrow> Inl e
      | Inr usr \<Rightarrow>
          (let sink = get_sink_node g ni usr
           in case vec_at (arcs nd) (int j) of
                Inl e \<Rightarrow> Inl e
              | Inr ad \<Rightarrow>
                  Inr (nd\<lparr>arcs := (arcs nd)[j := ad\<lparr>sink_node := sink,
                           arc_bb := \<lparr>x0 = min (nx src) (nx sink), y0 = min (ny src) (ny sink),
                                      x1 = max (nx src) (nx sink), y1 = max (ny src) (ny sink)\<rparr>\<rparr>],
                         net_bb := \<lparr>x0 = min (x0 (net_bb nd)) (nx sink),
                                    y0 = min (y0 (net_bb nd)) (ny sink),
                                    x1 = max (x1 (net_bb nd)) (nx sink),
                                    y1 = max (y1 (net_bb nd)) (ny sink)\<rparr>,
                         cx := cx nd + nx sink,
                         cy := cy nd + ny sink\<rparr>)))"

text \<open>
  The body of the loop over the nets, for the net \<open>ni\<close> and the counter \<open>i\<close>.  It returns
  the net with its \<^verbatim>\<open>udata\<close> written, the counter for the next round and the new state.
  The \<^verbatim>\<open>continue\<close> of a net without driver leaves the loop body before \<^verbatim>\<open>i++\<close>.
  The debug output does not change the state and is left out.
\<close>

definition setup_net ::
  "ChannelGraph \<Rightarrow> NetInfo \<Rightarrow> nat \<Rightarrow> ChannelRouterState \<Rightarrow>
     error + (NetInfo \<times> nat \<times> ChannelRouterState)" where
  "setup_net g ni0 i s0 =
     (let ni = ni0\<lparr>udata := int i\<rparr>
      in if \<not> i < length (nets_by_udata s0) then Inl OutOfRange
         else
           let s = s0\<lparr>nets_by_udata := (nets_by_udata s0)[i := Some (name ni)]\<rparr>
           in case vec_at (nets s) (int i) of
                Inl e \<Rightarrow> Inl e
              | Inr nd0 \<Rightarrow>
                  (let nd1 = nd0\<lparr>arcs := resize (arcs nd0) (length (users ni)) PerArcData_default,
                                 net_bb := \<lparr>x0 = INT_MAX, y0 = INT_MAX, x1 = INT_MIN, y1 = INT_MIN\<rparr>,
                                 cx := 0, cy := 0\<rparr>
                   in if cell (driver ni) = None then
                        Inr (ni, i, s\<lparr>nets := (nets s)[i := nd1\<lparr>hpwl := 0\<rparr>]\<rparr>)
                      else
                        let src = get_source_node g ni;
                            nd2 = nd1\<lparr>src_node := src,
                                      cx := cx nd1 + nx src, cy := cy nd1 + ny src,
                                      net_bb := \<lparr>x0 = nx src, y0 = ny src, x1 = nx src, y1 = ny src\<rparr>\<rparr>
                        in case for_each [0..<length (users ni)] (setup_arc g ni src) nd2 of
                             Inl e \<Rightarrow> Inl e
                           | Inr nd3 \<Rightarrow>
                               Inr (ni, i + 1,
                                 s\<lparr>nets := (nets s)[i := nd3\<lparr>
                                   hpwl := max (\<bar>y1 (net_bb nd3) - y0 (net_bb nd3)\<bar> +
                                                \<bar>x1 (net_bb nd3) - x0 (net_bb nd3)\<bar>) 1,
                                   cx := int_div (cx nd3) (int (length (users ni) + 1)),
                                   cy := int_div (cy nd3) (int (length (users ni) + 1))\<rparr>]\<rparr>)))"

fun setup_nets_loop ::
  "ChannelGraph \<Rightarrow> NetInfo list \<Rightarrow> nat \<Rightarrow> ChannelRouterState \<Rightarrow>
     error + (NetInfo list \<times> ChannelRouterState)" where
  "setup_nets_loop g [] i s = Inr ([], s)"
| "setup_nets_loop g (ni # rest) i s =
     (case setup_net g ni i s of
        Inl e \<Rightarrow> Inl e
      | Inr (ni', i', s') \<Rightarrow>
          (case setup_nets_loop g rest i' s' of
             Inl e \<Rightarrow> Inl e
           | Inr (nis, s'') \<Rightarrow> Inr (ni' # nis, s'')))"

definition setup_nets ::
  "ChannelGraph \<Rightarrow> Context \<Rightarrow> ChannelRouterState \<Rightarrow> error + (Context \<times> ChannelRouterState)" where
  "setup_nets g ctx s0 =
     (let s1 = s0\<lparr>nets := resize (nets s0) (length (ctx_nets ctx))
                  \<lparr>src_node = ChannelNode_default, arcs = [],
                   net_bb = \<lparr>x0 = 0, y0 = 0, x1 = 0, y1 = 0\<rparr>,
                   cx = 0, cy = 0, hpwl = 0, total_route_us = 0\<rparr>\<rparr>;
          s2 = s1\<lparr>nets_by_udata := resize (nets_by_udata s1) (length (ctx_nets ctx)) None\<rparr>
      in case setup_nets_loop g (ctx_nets ctx) 0 s2 of
           Inl e \<Rightarrow> Inl e
         | Inr (nis, s3) \<Rightarrow> Inr (ctx\<lparr>ctx_nets := nis\<rparr>, s3))"

section \<open>The priority queue order\<close>

definition QueuedNode_Greater :: "QueuedNode \<Rightarrow> QueuedNode \<Rightarrow> bool" where
  "QueuedNode_Greater lhs rhs =
     (let lhs_score = cost (qn_score lhs) + togo_cost (qn_score lhs);
          rhs_score = cost (qn_score rhs) + togo_cost (qn_score rhs)
      in if lhs_score = rhs_score then randtag lhs > randtag rhs else lhs_score > rhs_score)"

text \<open>
  \<^verbatim>\<open>std::priority_queue<T, Container, Compare>\<close> of the C++ standard library, for which the
  source includes \<^verbatim>\<open>queue\<close>: \<^verbatim>\<open>top()\<close> is an element that \<^verbatim>\<open>Compare\<close> puts below no
  other element of the queue, and \<^verbatim>\<open>pop()\<close> removes it.  The queue is the list of its
  elements; \<open>pq_top\<close> scans it for such an element.
\<close>

fun pq_top :: "('a \<Rightarrow> 'a \<Rightarrow> bool) \<Rightarrow> 'a list \<Rightarrow> 'a option" where
  "pq_top cmp [] = None"
| "pq_top cmp (a # as) = Some (foldl (\<lambda>m b. if cmp m b then b else m) a as)"

section \<open>Costs\<close>

definition present_node_cost :: "ChannelRouterState \<Rightarrow> PerNodeData \<Rightarrow> int \<Rightarrow> int \<Rightarrow> error + real" where
  "present_node_cost s w channel_type net_uid =
     (let over_capacity0 = int (fcard (fmdom (bound_nets w)))
      in case vec_at (channel_types s) channel_type of
           Inl e \<Rightarrow> Inl e
         | Inr c \<Rightarrow>
             (let over_capacity1 = over_capacity0 - (ch_width c - 1);
                  over_capacity = (if net_uid |\<in>| fmdom (bound_nets w) then over_capacity1 - 1
                                   else over_capacity1)
              in if over_capacity \<le> 0 then Inr 1
                 else Inr (1 + real_of_int over_capacity * curr_cong_weight s)))"

definition hit_test_node :: "ChannelRouterState \<Rightarrow> ArcBounds \<Rightarrow> ChannelNode \<Rightarrow> bool" where
  "hit_test_node s bb n \<longleftrightarrow>
     nx n \<ge> x0 bb - bb_margin_x (cfg s) \<and> nx n \<le> x1 bb + bb_margin_x (cfg s) \<and>
     ny n \<ge> y0 bb - bb_margin_y (cfg s) \<and> ny n \<le> y1 bb + bb_margin_y (cfg s)"

text \<open>In \<open>score_node_for_arc\<close> below, \<open>cost_per_user\<close>, \<open>distance\<close> and \<open>discounted\<close>
  name the three quotients of the source: \<^verbatim>\<open>base_cost / int(net->users.size())\<close>,
  \<^verbatim>\<open>(std::abs(..) + std::abs(..)) / float(nd.hpwl)\<close> and
  \<^verbatim>\<open>base_cost * hist_cost * present_cost / (1 + source_uses)\<close>.\<close>

text \<open>The local variable \<^verbatim>\<open>source_uses\<close> of \<^verbatim>\<open>score_node_for_arc\<close> and of
  \<^verbatim>\<open>get_togo_cost\<close>, which both compute it with the same two lines.\<close>

definition source_uses :: "PerNodeData \<Rightarrow> int \<Rightarrow> int" where
  "source_uses wd net_uid =
     (case fmlookup (bound_nets wd) net_uid of None \<Rightarrow> 0 | Some b \<Rightarrow> fst b)"

definition score_node_for_arc ::
  "ChannelRouterState \<Rightarrow> NetInfo \<Rightarrow> nat \<Rightarrow> ChannelNode \<Rightarrow> error + real" where
  "score_node_for_arc s net user node =
     (case node_data s node of
        Inl e \<Rightarrow> Inl e
      | Inr wd \<Rightarrow>
     (case vec_at (nets s) (udata net) of
        Inl e \<Rightarrow> Inl e
      | Inr nd \<Rightarrow>
     (case vec_at (channel_types s) (ntype node) of
        Inl e \<Rightarrow> Inl e
      | Inr c \<Rightarrow>
     (case present_node_cost s wd (ntype node) (udata net) of
        Inl e \<Rightarrow> Inl e
      | Inr present_cost \<Rightarrow>
          (let base_cost = ch_cost c;
               hist_cost = hist_cong_cost wd
           in case float_div base_cost (real_of_int (int (length (users net)))) of
                Inl e \<Rightarrow> Inl e
              | Inr cost_per_user \<Rightarrow>
             (case float_div (real_of_int (\<bar>nx node - cx nd\<bar> + \<bar>ny node - cy nd\<bar>))
                     (real_of_int (hpwl nd)) of
                Inl e \<Rightarrow> Inl e
              | Inr distance \<Rightarrow>
                  (let bias_cost = bias_cost_factor (cfg s) * cost_per_user * distance
                   in case float_div (base_cost * hist_cost * present_cost)
                             (real_of_int (1 + source_uses wd (udata net))) of
                        Inl e \<Rightarrow> Inl e
                      | Inr discounted \<Rightarrow> Inr (discounted + bias_cost))))))))"

definition get_togo_cost ::
  "ChannelRouterState \<Rightarrow> NetInfo \<Rightarrow> nat \<Rightarrow> ChannelNode \<Rightarrow> ChannelNode \<Rightarrow> error + real" where
  "get_togo_cost s net user curr_node sink =
     (case node_data s curr_node of
        Inl e \<Rightarrow> Inl e
      | Inr wd \<Rightarrow>
          (let base_cost = float_to_int
                 (togo_cost_dx (cfg s) * real_of_int \<bar>nx curr_node - nx sink\<bar> +
                  togo_cost_dy (cfg s) * real_of_int \<bar>ny curr_node - ny sink\<bar> +
                  togo_cost_adder (cfg s))
           in if 1 + source_uses wd (udata net) = 0 then Inl DivisionByZero
              else Inr (real_of_int (int_div base_cost (1 + source_uses wd (udata net))))))"

section \<open>Rip-up\<close>

text \<open>The \<^verbatim>\<open>while\<close> loop of \<^verbatim>\<open>ripup_arc\<close>.  It need not end: \<open>None\<close> is the loop that runs
  forever, \<open>Some (Inl e)\<close> the loop that throws.\<close>

partial_function (option) ripup_arc_loop ::
  "ChannelRouterState \<Rightarrow> NetInfo \<Rightarrow> ChannelNode \<Rightarrow> ChannelNode \<Rightarrow> (error + ChannelRouterState) option" where
  "ripup_arc_loop s net src cursor =
     (if cursor \<noteq> src then
        (case node_data s cursor of
           Inl e \<Rightarrow> Some (Inl e)
         | Inr wd \<Rightarrow>
             (case fmlookup (bound_nets wd) (udata net) of
                None \<Rightarrow> Some (Inl OutOfRange)
              | Some b \<Rightarrow>
                  (case unbind_node_internal s net cursor of
                     Inl e \<Rightarrow> Some (Inl e)
                   | Inr s' \<Rightarrow> ripup_arc_loop s' net src (snd b))))
      else Some (Inr s))"

definition ripup_arc ::
  "ChannelRouterState \<Rightarrow> NetInfo \<Rightarrow> nat \<Rightarrow> (error + ChannelRouterState) option" where
  "ripup_arc s net user =
     (case vec_at (nets s) (udata net) of
        Inl e \<Rightarrow> Some (Inl e)
      | Inr nd \<Rightarrow>
     (case vec_at (arcs nd) (int user) of
        Inl e \<Rightarrow> Some (Inl e)
      | Inr ad \<Rightarrow>
          if \<not> routed ad then Some (Inr s)
          else
            (case ripup_arc_loop s net (src_node nd) (sink_node ad) of
               None \<Rightarrow> None
             | Some (Inl e) \<Rightarrow> Some (Inl e)
             | Some (Inr s') \<Rightarrow>
                 Some (Inr (s'\<lparr>nets := (nets s')[nat (udata net) :=
                   (nets s' ! nat (udata net))\<lparr>arcs :=
                     (arcs (nets s' ! nat (udata net)))[user := ad\<lparr>routed := False\<rparr>]\<rparr>]\<rparr>)))))"

section \<open>Settings\<close>

text \<open>
  \<^verbatim>\<open>Settings::get<T>\<close>.  The two conversions of the template are parameters:
  \<open>lexical_cast\<close> is \<^verbatim>\<open>boost::lexical_cast<T>\<close>, with \<open>None\<close> where it throws
  \<^verbatim>\<open>bad_lexical_cast\<close>, and \<open>to_string\<close> is \<^verbatim>\<open>std::to_string\<close>.  The function returns its
  result and the context with the settings it wrote.  \<^verbatim>\<open>log_error\<close> of nextpnr does not
  return to its caller.
\<close>

definition Settings_get ::
  "(string \<Rightarrow> 'a option) \<Rightarrow> ('a \<Rightarrow> string) \<Rightarrow> Context \<Rightarrow> string \<Rightarrow> 'a \<Rightarrow> (error + 'a) \<times> Context" where
  "Settings_get lexical_cast to_string ctx nm defaultValue =
     (case fmlookup (settings ctx) nm of
        Some str \<Rightarrow>
          (case lexical_cast str of
             Some v \<Rightarrow> (Inr v, ctx)
           | None \<Rightarrow> (Inl LogError, ctx))
      | None \<Rightarrow>
          (Inr defaultValue,
           ctx\<lparr>settings := fmupd nm (to_string defaultValue) (settings ctx)\<rparr>))"

definition Settings_set :: "('a \<Rightarrow> string) \<Rightarrow> Context \<Rightarrow> string \<Rightarrow> 'a \<Rightarrow> Context" where
  "Settings_set to_string ctx nm v = ctx\<lparr>settings := fmupd nm (to_string v) (settings ctx)\<rparr>"

text \<open>The two conversions at \<^verbatim>\<open>T = bool\<close>: \<^verbatim>\<open>std::to_string\<close> prints the promoted integer,
  \<^verbatim>\<open>boost::lexical_cast<bool>\<close> reads \<^verbatim>\<open>"0"\<close> and \<^verbatim>\<open>"1"\<close> and throws on anything else.\<close>

definition to_string_bool :: "bool \<Rightarrow> string" where
  "to_string_bool v = (if v then ''1'' else ''0'')"

definition lexical_cast_bool :: "string \<Rightarrow> bool option" where
  "lexical_cast_bool str =
     (if str = ''1'' then Some True else if str = ''0'' then Some False else None)"

section \<open>Example states\<close>

text \<open>
  A grid of three cells in a row with one channel type.  Net 0 drives from \<open>(0, 0, 0)\<close>;
  its arc 0 ends at \<open>(2, 0, 0)\<close> and its arc 1 at \<open>(1, 0, 0)\<close>, so both arcs pass through
  \<open>(1, 0, 0)\<close>.  Net 1 is not routed.
\<close>

definition ex_n0 :: ChannelNode where
  "ex_n0 = \<lparr>nx = 0, ny = 0, ntype = 0\<rparr>"

definition ex_n1 :: ChannelNode where
  "ex_n1 = \<lparr>nx = 1, ny = 0, ntype = 0\<rparr>"

definition ex_n2 :: ChannelNode where
  "ex_n2 = \<lparr>nx = 2, ny = 0, ntype = 0\<rparr>"

definition ex_bound :: "(int, int \<times> ChannelNode) fmap \<Rightarrow> PerNodeData" where
  "ex_bound m = PerNodeData_default\<lparr>bound_nets := m\<rparr>"

definition ex_channel :: Channel where
  "ex_channel = \<lparr>ch_dir = DIR_EAST, ch_length = 1, ch_cost = 2, ch_width = 1, ch_downhill = []\<rparr>"

definition ex_cfg :: ChannelRouterCfg where
  "ex_cfg = \<lparr>bb_margin_x = 0, bb_margin_y = 0, togo_cost_dx = 1, togo_cost_dy = 1,
     togo_cost_adder = 0, bias_cost_factor = 1\<rparr>"

definition ex_arc :: "ChannelNode \<Rightarrow> bool \<Rightarrow> PerArcData" where
  "ex_arc sink r = \<lparr>sink_node = sink, arc_bb = \<lparr>x0 = 0, y0 = 0, x1 = nx sink, y1 = 0\<rparr>, routed = r\<rparr>"

definition ex_netdata :: "bool \<Rightarrow> PerNetData" where
  "ex_netdata r = \<lparr>src_node = ex_n0, arcs = [ex_arc ex_n2 r, ex_arc ex_n1 True],
     net_bb = \<lparr>x0 = 0, y0 = 0, x1 = 2, y1 = 0\<rparr>, cx = 1, cy = 0, hpwl = 2, total_route_us = 0\<rparr>"

definition ex_grid ::
  "(int, int \<times> ChannelNode) fmap \<Rightarrow> (int, int \<times> ChannelNode) fmap \<Rightarrow>
   (int, int \<times> ChannelNode) fmap \<Rightarrow> bool \<Rightarrow> ChannelRouterState" where
  "ex_grid m0 m1 m2 r = \<lparr>cfg = ex_cfg, width = 3, height = 1,
     nodes = [[ex_bound m0], [ex_bound m1], [ex_bound m2]],
     channel_types = [ex_channel], nets_by_udata = [Some ''n0'', Some ''n1''],
     nets = [ex_netdata r, ex_netdata False],
     curr_cong_weight = 1 / 2, hist_cong_weight = 1, estimate_weight = 1\<rparr>"

definition ex_state :: ChannelRouterState where
  "ex_state = ex_grid (fmupd 0 (2, ex_n0) fmempty) (fmupd 0 (2, ex_n0) fmempty)
                      (fmupd 0 (1, ex_n1) fmempty) True"

definition ex_net0 :: NetInfo where
  "ex_net0 = \<lparr>name = ''n0'', udata = 0, driver = \<lparr>cell = Some ''d'', port = ''o''\<rparr>,
     users = [\<lparr>cell = Some ''a'', port = ''i''\<rparr>, \<lparr>cell = Some ''b'', port = ''i''\<rparr>]\<rparr>"

definition ex_net1 :: NetInfo where
  "ex_net1 = \<lparr>name = ''n1'', udata = 1, driver = \<lparr>cell = None, port = []\<rparr>, users = []\<rparr>"

text \<open>A context with one setting, a node shared by three nets, and queue entries of equal
  score.\<close>

definition ex_ctx :: Context where
  "ex_ctx = \<lparr>ctx_nets = [ex_net1, ex_net0], settings = fmupd ''router/verbose'' ''1'' fmempty,
     debug = False\<rparr>"

definition ex_three :: PerNodeData where
  "ex_three = ex_bound (fmupd 0 (1, ex_n0) (fmupd 1 (1, ex_n0) (fmupd 2 (1, ex_n0) fmempty)))"

definition ex_queued :: "int \<Rightarrow> QueuedNode" where
  "ex_queued tag = \<lparr>qn_node = ex_n1, qn_prev = ex_n0,
     qn_score = \<lparr>cost = 2, togo_cost = 1, delay = 0\<rparr>, randtag = tag\<rparr>"

text \<open>The example state with the node \<open>(2, 0, 0)\<close> shared by the nets 0, 1 and 2, a
  historical cost of 3 there and a bias factor of 3; and with a half-perimeter of 0 for net 0.\<close>

definition ex_busy :: ChannelRouterState where
  "ex_busy = ex_state\<lparr>cfg := ex_cfg\<lparr>bias_cost_factor := 3\<rparr>,
     nodes := [[ex_bound fmempty], [ex_bound fmempty], [ex_three\<lparr>hist_cong_cost := 3\<rparr>]]\<rparr>"

definition ex_flat :: ChannelRouterState where
  "ex_flat = ex_busy\<lparr>nets := [(ex_netdata True)\<lparr>hpwl := 0\<rparr>, ex_netdata False]\<rparr>"

text \<open>A netlist of two nets before setup: net \<open>a\<close> has no driver, net \<open>b\<close> has a driver
  and one user.\<close>

definition ex_graph :: ChannelGraph where
  "ex_graph = \<lparr>get_width = 3, get_height = 1, get_channels = [ex_channel],
     get_source_node = (\<lambda>ni. ex_n0), get_sink_node = (\<lambda>ni usr. ex_n2)\<rparr>"

definition ex_undriven :: NetInfo where
  "ex_undriven = \<lparr>name = ''a'', udata = - 1, driver = \<lparr>cell = None, port = []\<rparr>, users = []\<rparr>"

definition ex_driven :: NetInfo where
  "ex_driven = \<lparr>name = ''b'', udata = - 1, driver = \<lparr>cell = Some ''d'', port = ''o''\<rparr>,
     users = [\<lparr>cell = Some ''u'', port = ''i''\<rparr>]\<rparr>"

definition ex_netlist :: Context where
  "ex_netlist = \<lparr>ctx_nets = [ex_undriven, ex_driven], settings = fmempty, debug = False\<rparr>"

definition ex_unset :: ChannelRouterState where
  "ex_unset = \<lparr>cfg = ex_cfg, width = 3, height = 1, nodes = [], channel_types = [],
     nets_by_udata = [], nets = [], curr_cong_weight = 1, hist_cong_weight = 1,
     estimate_weight = 1\<rparr>"

section \<open>Predicates for the properties\<close>

text \<open>What a successful run of \<open>setup_downhill\<close> has checked: both flattened indices
  lie inside the vector of cells.  \<open>W\<close> is the width, \<open>n\<close> the number of cells, \<open>T\<close>
  the table of channel types.\<close>

definition edge_checked :: "int \<Rightarrow> int \<Rightarrow> Channel list \<Rightarrow> int \<Rightarrow> int \<Rightarrow> Channel \<Rightarrow> ChannelPIP \<Rightarrow> bool" where
  "edge_checked W n T x y c dh \<longleftrightarrow>
     (case displace (ch_dir c) (src_along dh) (x, y) of
        (start_x, start_y) \<Rightarrow> 0 \<le> start_y * W + start_x \<and> start_y * W + start_x < n) \<and>
     (case vec_at T (dst_type dh) of
        Inl e \<Rightarrow> False
      | Inr d \<Rightarrow>
          (case displace (ch_dir d) (dst_along dh) (x, y) of
             (end_x, end_y) \<Rightarrow> 0 \<le> end_y * W + end_x \<and> end_y * W + end_x < n))"

definition grid_shape :: "int \<Rightarrow> int \<Rightarrow> Channel list \<Rightarrow> ChannelRouterState \<Rightarrow> bool" where
  "grid_shape W H T s \<longleftrightarrow>
     width s = W \<and> height s = H \<and> channel_types s = T \<and> int (length (nodes s)) = W * H"

definition cell_checked :: "int \<Rightarrow> int \<Rightarrow> Channel list \<Rightarrow> int \<Rightarrow> int \<Rightarrow> bool" where
  "cell_checked W n T x y \<longleftrightarrow>
     (\<forall>t\<in>set [0..int (length T) - 1]. \<exists>c. vec_at T t = Inr c \<and>
        (\<forall>dh\<in>set (ch_downhill c). edge_checked W n T x y c dh))"

text \<open>The nodes that the loop of \<open>ripup_arc\<close> visits: \<open>p\<close> lists the nodes from \<open>cursor\<close>
  along the uphill links that the net has stored, up to the driver \<open>src\<close>, which is not
  part of the list.\<close>

fun is_route ::
  "ChannelRouterState \<Rightarrow> NetInfo \<Rightarrow> ChannelNode \<Rightarrow> ChannelNode \<Rightarrow> ChannelNode list \<Rightarrow> bool" where
  "is_route s net src cursor [] \<longleftrightarrow> cursor = src"
| "is_route s net src cursor (n # p) \<longleftrightarrow>
     cursor \<noteq> src \<and> n = cursor \<and>
     (case node_data s n of
        Inl e \<Rightarrow> False
      | Inr wd \<Rightarrow>
          (case fmlookup (bound_nets wd) (udata net) of
             None \<Rightarrow> False
           | Some b \<Rightarrow> is_route s net src (snd b) p))"

text \<open>What \<open>unbind_node_internal\<close> does to the data of the node.\<close>

definition unbound :: "int \<Rightarrow> PerNodeData \<Rightarrow> PerNodeData" where
  "unbound net_uid wd =
     (case fmlookup (bound_nets wd) net_uid of
        None \<Rightarrow> wd
      | Some b \<Rightarrow>
          if fst b - 1 = 0 then wd\<lparr>bound_nets := fmdrop net_uid (bound_nets wd)\<rparr>
          else wd\<lparr>bound_nets := fmupd net_uid (fst b - 1, snd b) (bound_nets wd)\<rparr>)"

text \<open>A grid of two by two cells whose one channel type runs west and has a downhill
  template one cell along it; and the example state after arc 0 of net 0 is ripped up.\<close>

definition ex_west :: Channel where
  "ex_west = \<lparr>ch_dir = DIR_WEST, ch_length = 1, ch_cost = 1, ch_width = 1,
     ch_downhill = [\<lparr>src_along = 1, dst_type = 0, dst_along = 0\<rparr>]\<rparr>"

definition ex_west_graph :: ChannelGraph where
  "ex_west_graph = \<lparr>get_width = 2, get_height = 2, get_channels = [ex_west],
     get_source_node = (\<lambda>ni. ex_n0), get_sink_node = (\<lambda>ni usr. ex_n1)\<rparr>"

definition ex_ripped :: ChannelRouterState where
  "ex_ripped = ex_grid (fmupd 0 (2, ex_n0) fmempty) (fmupd 0 (1, ex_n0) fmempty) fmempty False"

section \<open>Node data: reading after writing\<close>

lemma vec_at_Inr_iff: "vec_at v i = Inr a \<longleftrightarrow> 0 \<le> i \<and> nat i < length v \<and> a = v ! nat i"
  by (auto simp: vec_at_def)

lemma cell_index_inj:
  fixes W :: int
  assumes "0 \<le> a" "a < W" "0 \<le> c" "c < W" "b * W + a = d * W + c"
  shows "a = c \<and> b = d"
proof -
  have "(a + b * W) div W = b" "(c + d * W) div W = d"
    using assms by (simp_all add: div_pos_pos_trivial)
  moreover have "a + b * W = c + d * W" using assms(5) by (simp add: add.commute)
  ultimately have "b = d" by simp
  then show ?thesis using assms(5) by simp
qed

lemma node_data_Inr_iff:
  "node_data s n = Inr wd \<longleftrightarrow>
     0 \<le> nx n \<and> nx n < width s \<and> 0 \<le> ny n \<and> ny n < height s \<and>
     0 \<le> node_index s n \<and> nat (node_index s n) < length (nodes s) \<and>
     0 \<le> ntype n \<and> nat (ntype n) < length (nodes s ! nat (node_index s n)) \<and>
     wd = nodes s ! nat (node_index s n) ! nat (ntype n)"
  by (auto simp: node_data_def vec_at_def split: sum.splits)

lemma node_index_update [simp]: "node_index (node_data_update s n f) m = node_index s m"
  by (simp add: node_index_def node_data_update_def)

lemma node_data_update_same:
  "node_data s n = Inr wd \<Longrightarrow> node_data (node_data_update s n f) n = Inr (f wd)"
  unfolding node_data_Inr_iff
  by (simp add: node_data_update_def update2_def node_index_def)

lemma vec_at_update2_other:
  assumes "0 \<le> i" "0 \<le> j" "i' \<noteq> i \<or> j' \<noteq> j"
  shows "(case vec_at (update2 v i j f) i' of Inl e \<Rightarrow> Inl e | Inr l \<Rightarrow> vec_at l j') =
         (case vec_at v i' of Inl e \<Rightarrow> Inl e | Inr l \<Rightarrow> vec_at l j')"
proof (cases "0 \<le> i' \<and> nat i' < length v")
  case False
  then show ?thesis by (auto simp: vec_at_def update2_def)
next
  case inr: True
  show ?thesis
  proof (cases "i' = i")
    case True
    with assms have "j' \<noteq> j" by simp
    then have "0 \<le> j' \<Longrightarrow> nat j' \<noteq> nat j" using assms(2) by arith
    with True inr show ?thesis
      by (auto simp: vec_at_def update2_def)
  next
    case False
    then have "nat i' \<noteq> nat i" using assms(1) inr by arith
    with inr show ?thesis by (simp add: vec_at_def update2_def)
  qed
qed

lemma node_data_update_other:
  assumes "node_data s n = Inr wd" "m \<noteq> n"
  shows "node_data (node_data_update s n f) m = node_data s m"
proof (cases "0 \<le> nx m \<and> nx m < width s \<and> 0 \<le> ny m \<and> ny m < height s")
  case False
  then show ?thesis by (auto simp: node_data_def node_data_update_def)
next
  case True
  note n = assms(1)[unfolded node_data_Inr_iff]
  have "node_index s m \<noteq> node_index s n \<or> ntype m \<noteq> ntype n"
  proof (rule ccontr)
    assume "\<not> ?thesis"
    then have same: "node_index s m = node_index s n" "ntype m = ntype n" by simp_all
    with True n have "nx m = nx n \<and> ny m = ny n"
      using cell_index_inj[of "nx m" "width s" "nx n" "ny m" "ny n"]
      by (simp add: node_index_def)
    with same assms(2) show False by (cases m, cases n) simp
  qed
  with n have "(case vec_at (update2 (nodes s) (node_index s n) (ntype n) f) (node_index s m) of
                  Inl e \<Rightarrow> Inl e | Inr l \<Rightarrow> vec_at l (ntype m)) =
               (case vec_at (nodes s) (node_index s m) of Inl e \<Rightarrow> Inl e | Inr l \<Rightarrow> vec_at l (ntype m))"
    by (intro vec_at_update2_other) simp_all
  then show ?thesis
    by (simp add: node_data_def node_data_update_def node_index_def)
qed

lemma node_data_update_id:
  "node_data s n = Inr wd \<Longrightarrow> f wd = wd \<Longrightarrow> node_data_update s n f = s"
  unfolding node_data_Inr_iff
  by (simp add: node_data_update_def update2_def)

lemma node_data_update_twice:
  "node_data s n = Inr wd \<Longrightarrow>
   node_data_update (node_data_update s n f) n g = node_data_update s n (g \<circ> f)"
  unfolding node_data_Inr_iff
  by (simp add: node_data_update_def update2_def node_index_def)

lemma bind_node_internal_Inr:
  assumes "node_data s node = Inr wd" "bind_node_internal s net node up = Inr s'"
  shows "node_data s' node =
           Inr (wd\<lparr>bound_nets := fmupd (udata net) (source_uses wd (udata net) + 1, up) (bound_nets wd)\<rparr>)"
    and "s' = node_data_update s node
           (\<lambda>w. w\<lparr>bound_nets := fmupd (udata net) (source_uses wd (udata net) + 1, up) (bound_nets w)\<rparr>)"
  using assms
  by (auto simp: bind_node_internal_def source_uses_def Let_def node_data_update_same
           split: option.splits if_splits)

lemma bind_node_internal_first:
  assumes "node_data s node = Inr wd" "fmlookup (bound_nets wd) (udata net) = None"
  shows "\<exists>s'. bind_node_internal s net node up = Inr s'"
  using assms by (simp add: bind_node_internal_def)

lemma bind_node_internal_again:
  assumes "node_data s node = Inr wd" "fmlookup (bound_nets wd) (udata net) = Some (c, old)" "c \<noteq> 0"
  shows "bind_node_internal s net node up =
           (if old = up then
              Inr (node_data_update s node
                    (\<lambda>w. w\<lparr>bound_nets := fmupd (udata net) (c + 1, old) (bound_nets w)\<rparr>))
            else Inl AssertionFailure)"
  using assms by (simp add: bind_node_internal_def)

lemma fmupd_known: "fmlookup m k = Some v \<Longrightarrow> fmupd k v m = m"
  by (rule fmap_ext) auto

lemma bind_unbind_first:
  assumes "node_data s node = Inr wd" "fmlookup (bound_nets wd) (udata net) = None"
  shows "\<exists>s1. bind_node_internal s net node up = Inr s1 \<and> unbind_node_internal s1 net node = Inr s"
proof -
  let ?f = "\<lambda>w. w\<lparr>bound_nets := fmupd (udata net) (1, up) (bound_nets w)\<rparr>"
  let ?g = "\<lambda>w. w\<lparr>bound_nets := fmdrop (udata net) (bound_nets w)\<rparr>"
  have b: "bind_node_internal s net node up = Inr (node_data_update s node ?f)"
    using assms by (simp add: bind_node_internal_def)
  have nd: "node_data (node_data_update s node ?f) node = Inr (?f wd)"
    using assms(1) by (rule node_data_update_same)
  have "fmdrop (udata net) (fmupd (udata net) (1, up) (bound_nets wd)) = bound_nets wd"
    using assms(2) by (simp add: fmdrop_fmupd_same fmdrop_idle fmdom_notI)
  then have "(?g \<circ> ?f) wd = wd" by simp
  then have "node_data_update s node (?g \<circ> ?f) = s"
    using assms(1) by (intro node_data_update_id)
  then have "unbind_node_internal (node_data_update s node ?f) net node = Inr s"
    using nd node_data_update_twice[OF assms(1), of ?f ?g]
    by (simp add: unbind_node_internal_def)
  with b show ?thesis by simp
qed

lemma bind_unbind_again:
  assumes "node_data s node = Inr wd" "fmlookup (bound_nets wd) (udata net) = Some (c, up)" "c \<noteq> 0"
  shows "\<exists>s1. bind_node_internal s net node up = Inr s1 \<and> unbind_node_internal s1 net node = Inr s"
proof -
  let ?f = "\<lambda>w. w\<lparr>bound_nets := fmupd (udata net) (c + 1, up) (bound_nets w)\<rparr>"
  let ?g = "\<lambda>w. w\<lparr>bound_nets := fmupd (udata net) (c, up) (bound_nets w)\<rparr>"
  have b: "bind_node_internal s net node up = Inr (node_data_update s node ?f)"
    using assms by (simp add: bind_node_internal_again)
  have nd: "node_data (node_data_update s node ?f) node = Inr (?f wd)"
    using assms(1) by (rule node_data_update_same)
  have "fmupd (udata net) (c, up) (fmupd (udata net) (c + 1, up) (bound_nets wd)) = bound_nets wd"
    using assms(2) by (simp add: fmupd_known)
  then have "(?g \<circ> ?f) wd = wd" by simp
  then have "node_data_update s node (?g \<circ> ?f) = s"
    using assms(1) by (intro node_data_update_id)
  then have "unbind_node_internal (node_data_update s node ?f) net node = Inr s"
    using nd node_data_update_twice[OF assms(1), of ?f ?g] assms(3)
    by (simp add: unbind_node_internal_def)
  with b show ?thesis by simp
qed

section \<open>Properties of binding and unbinding\<close>

text \<open>
  Claim C3.  With \<open>node\<close> a node of the grid: a call of \<open>bind_node_internal\<close> that
  returns has raised the use count of the net at \<open>node\<close> by one (from 0 when the net had no
  entry there), has stored the passed uphill node with it, and has changed no other node.
  The call returns when the net had no entry at \<open>node\<close>.  When the net has an entry with a
  count other than 0, the call returns if the stored uphill node is the passed one, and
  fails its assertion if not.  So after every bind that returns, the stored uphill node is
  the one that this bind and every earlier bind of the net at \<open>node\<close> passed.
\<close>

theorem bind_node_internal_counts_and_uphill:
  assumes "node_data s node = Inr wd"
  shows "(\<forall>s'. bind_node_internal s net node up = Inr s' \<longrightarrow>
            node_data s' node =
              Inr (wd\<lparr>bound_nets := fmupd (udata net) (source_uses wd (udata net) + 1, up) (bound_nets wd)\<rparr>) \<and>
            (\<forall>m. m \<noteq> node \<longrightarrow> node_data s' m = node_data s m))
       \<and> (fmlookup (bound_nets wd) (udata net) = None \<longrightarrow>
            (\<exists>s'. bind_node_internal s net node up = Inr s'))
       \<and> (\<forall>c old. fmlookup (bound_nets wd) (udata net) = Some (c, old) \<and> c \<noteq> 0 \<longrightarrow>
            (old = up \<longrightarrow> (\<exists>s'. bind_node_internal s net node up = Inr s')) \<and>
            (old \<noteq> up \<longrightarrow> bind_node_internal s net node up = Inl AssertionFailure))"
proof (intro conjI allI impI)
  fix s' assume "bind_node_internal s net node up = Inr s'"
  from bind_node_internal_Inr[OF assms this]
  show "node_data s' node =
          Inr (wd\<lparr>bound_nets := fmupd (udata net) (source_uses wd (udata net) + 1, up) (bound_nets wd)\<rparr>)"
    and "\<And>m. m \<noteq> node \<Longrightarrow> node_data s' m = node_data s m"
    using assms by (simp_all add: node_data_update_other)
next
  assume "fmlookup (bound_nets wd) (udata net) = None"
  with assms show "\<exists>s'. bind_node_internal s net node up = Inr s'"
    by (rule bind_node_internal_first)
next
  fix c old
  assume h: "fmlookup (bound_nets wd) (udata net) = Some (c, old) \<and> c \<noteq> 0"
  { assume "old = up"
    with h assms show "\<exists>s'. bind_node_internal s net node up = Inr s'"
      by (simp add: bind_node_internal_again) }
  { assume "old \<noteq> up"
    with h assms show "bind_node_internal s net node up = Inl AssertionFailure"
      by (simp add: bind_node_internal_again) }
qed

theorem bind_node_internal_counts_and_uphill_witness:
  "node_data ex_state ex_n2 = Inr (ex_bound (fmupd 0 (1, ex_n1) fmempty)) \<and>
   node_data (ex_grid (fmupd 0 (2, ex_n0) fmempty) (fmupd 0 (2, ex_n0) fmempty)
                (fmupd 0 (2, ex_n1) fmempty) True) ex_n2 =
     Inr (ex_bound (fmupd 0 (2, ex_n1) fmempty)) \<and>
   bind_node_internal ex_state ex_net0 ex_n2 ex_n1 =
     Inr (ex_grid (fmupd 0 (2, ex_n0) fmempty) (fmupd 0 (2, ex_n0) fmempty)
            (fmupd 0 (2, ex_n1) fmempty) True) \<and>
   bind_node_internal ex_state ex_net0 ex_n2 ex_n0 = Inl AssertionFailure \<and>
   (\<exists>s'. bind_node_internal ex_state ex_net1 ex_n2 ex_n0 = Inr s')"
proof -
  have nd: "node_data ex_state ex_n2 = Inr (ex_bound (fmupd 0 (1, ex_n1) fmempty))"
    by (simp add: node_data_def node_index_def vec_at_def ex_state_def ex_grid_def ex_n2_def)
  have b: "bind_node_internal ex_state ex_net0 ex_n2 ex_n1 =
     Inr (ex_grid (fmupd 0 (2, ex_n0) fmempty) (fmupd 0 (2, ex_n0) fmempty)
            (fmupd 0 (2, ex_n1) fmempty) True)"
    using bind_node_internal_again [OF nd, of ex_net0 1 ex_n1 ex_n1]
    by (simp add: node_data_update_def update2_def node_index_def
          ex_state_def ex_grid_def ex_bound_def ex_net0_def ex_n2_def)
  have l0: "fmlookup (bound_nets (ex_bound (fmupd 0 (1, ex_n1) fmempty))) (udata ex_net0) =
              Some (1, ex_n1) \<and> (1::int) \<noteq> 0"
    by (simp add: ex_bound_def ex_net0_def)
  have l1: "fmlookup (bound_nets (ex_bound (fmupd 0 (1, ex_n1) fmempty))) (udata ex_net1) = None"
    by (simp add: ex_bound_def ex_net1_def)
  have ne: "ex_n1 \<noteq> ex_n0" by (simp add: ex_n0_def ex_n1_def)
  note t = bind_node_internal_counts_and_uphill [OF nd]
  have after: "node_data (ex_grid (fmupd 0 (2, ex_n0) fmempty) (fmupd 0 (2, ex_n0) fmempty)
                (fmupd 0 (2, ex_n1) fmempty) True) ex_n2 =
     Inr (ex_bound (fmupd 0 (2, ex_n1) fmempty))"
    using t [of ex_net0 ex_n1, THEN conjunct1, rule_format, OF b, THEN conjunct1]
    by (simp add: source_uses_def ex_bound_def ex_net0_def)
  have fail: "bind_node_internal ex_state ex_net0 ex_n2 ex_n0 = Inl AssertionFailure"
    using t [of ex_net0 ex_n0, THEN conjunct2, THEN conjunct2, rule_format, OF l0, THEN conjunct2] ne
    by simp
  have first: "\<exists>s'. bind_node_internal ex_state ex_net1 ex_n2 ex_n0 = Inr s'"
    using t [of ex_net1 ex_n0, THEN conjunct2, THEN conjunct1] l1 by simp
  from nd after b fail first show ?thesis by simp
qed

text \<open>
  Claim C9.  With \<open>node\<close> a node of the grid at which the net has no entry, or an entry with
  the uphill node \<open>up\<close> and a use count other than 0 (every entry that the router writes
  has a count of at least 1): \<open>bind_node_internal\<close> with \<open>up\<close> returns, and
  \<open>unbind_node_internal\<close> right after it returns the state from before the bind, so the
  \<open>bound_nets\<close> of the node are as they were.
\<close>

theorem bind_then_unbind_restores:
  assumes "node_data s node = Inr wd"
    and "fmlookup (bound_nets wd) (udata net) = None \<or>
         (\<exists>c. c \<noteq> 0 \<and> fmlookup (bound_nets wd) (udata net) = Some (c, up))"
  shows "\<exists>s1. bind_node_internal s net node up = Inr s1 \<and> unbind_node_internal s1 net node = Inr s"
  using assms bind_unbind_first bind_unbind_again by blast

theorem bind_then_unbind_restores_witness:
  "node_data ex_state ex_n2 = Inr (ex_bound (fmupd 0 (1, ex_n1) fmempty)) \<and>
   fmlookup (bound_nets (ex_bound (fmupd 0 (1, ex_n1) fmempty))) (udata ex_net1) = None \<and>
   fmlookup (bound_nets (ex_bound (fmupd 0 (1, ex_n1) fmempty))) (udata ex_net0) = Some (1, ex_n1) \<and>
   (\<exists>s1. bind_node_internal ex_state ex_net1 ex_n2 ex_n0 = Inr s1 \<and>
         unbind_node_internal s1 ex_net1 ex_n2 = Inr ex_state) \<and>
   (\<exists>s1. bind_node_internal ex_state ex_net0 ex_n2 ex_n1 = Inr s1 \<and>
         unbind_node_internal s1 ex_net0 ex_n2 = Inr ex_state)"
proof -
  have nd: "node_data ex_state ex_n2 = Inr (ex_bound (fmupd 0 (1, ex_n1) fmempty))"
    by (simp add: node_data_def node_index_def vec_at_def ex_state_def ex_grid_def ex_n2_def)
  have l0: "fmlookup (bound_nets (ex_bound (fmupd 0 (1, ex_n1) fmempty))) (udata ex_net0) =
              Some (1, ex_n1)"
    by (simp add: ex_bound_def ex_net0_def)
  have l1: "fmlookup (bound_nets (ex_bound (fmupd 0 (1, ex_n1) fmempty))) (udata ex_net1) = None"
    by (simp add: ex_bound_def ex_net1_def)
  have "\<exists>c. c \<noteq> 0 \<and>
          fmlookup (bound_nets (ex_bound (fmupd 0 (1, ex_n1) fmempty))) (udata ex_net0) = Some (c, ex_n1)"
    using l0 by simp
  then have again: "\<exists>s1. bind_node_internal ex_state ex_net0 ex_n2 ex_n1 = Inr s1 \<and>
         unbind_node_internal s1 ex_net0 ex_n2 = Inr ex_state"
    using bind_then_unbind_restores [OF nd, of ex_net0 ex_n1] by simp
  have first: "\<exists>s1. bind_node_internal ex_state ex_net1 ex_n2 ex_n0 = Inr s1 \<and>
         unbind_node_internal s1 ex_net1 ex_n2 = Inr ex_state"
    using bind_then_unbind_restores [OF nd, of ex_net1 ex_n0] l1 by simp
  from nd l0 l1 again first show ?thesis by simp
qed

section \<open>Settings\<close>

text \<open>
  Claim C10.  When the settings hold a string under the name and the string parses, \<open>Settings_get\<close>
  returns the parsed value and the context is unchanged.  When the settings hold nothing
  under the name, it returns the default value and stores the string form of the default
  under the name.
\<close>

theorem Settings_get_present_or_absent:
  "(\<forall>str v. fmlookup (settings ctx) nm = Some str \<and> lexical_cast str = Some v \<longrightarrow>
      Settings_get lexical_cast to_string ctx nm d = (Inr v, ctx)) \<and>
   (fmlookup (settings ctx) nm = None \<longrightarrow>
      Settings_get lexical_cast to_string ctx nm d =
        (Inr d, ctx\<lparr>settings := fmupd nm (to_string d) (settings ctx)\<rparr>))"
  by (simp add: Settings_get_def)

theorem Settings_get_present_or_absent_witness:
  "fmlookup (settings ex_ctx) ''router/verbose'' = Some ''1'' \<and>
   lexical_cast_bool ''1'' = Some True \<and>
   Settings_get lexical_cast_bool to_string_bool ex_ctx ''router/verbose'' False = (Inr True, ex_ctx) \<and>
   fmlookup (settings ex_ctx) ''router/seed'' = None \<and>
   Settings_get lexical_cast_bool to_string_bool ex_ctx ''router/seed'' False =
     (Inr False, ex_ctx\<lparr>settings := fmupd ''router/seed'' ''0'' (settings ex_ctx)\<rparr>)"
proof -
  have p: "fmlookup (settings ex_ctx) ''router/verbose'' = Some ''1'' \<and>
           lexical_cast_bool ''1'' = Some True"
    by (simp add: ex_ctx_def lexical_cast_bool_def)
  have a: "fmlookup (settings ex_ctx) ''router/seed'' = None"
    by (simp add: ex_ctx_def)
  note t = Settings_get_present_or_absent
    [of ex_ctx _ lexical_cast_bool to_string_bool False]
  have "Settings_get lexical_cast_bool to_string_bool ex_ctx ''router/verbose'' False = (Inr True, ex_ctx)"
    using t [of "''router/verbose''", THEN conjunct1, rule_format, OF p] .
  moreover have "Settings_get lexical_cast_bool to_string_bool ex_ctx ''router/seed'' False =
     (Inr False, ex_ctx\<lparr>settings := fmupd ''router/seed'' ''0'' (settings ex_ctx)\<rparr>)"
    using t [of "''router/seed''", THEN conjunct2, rule_format, OF a]
    by (simp add: to_string_bool_def)
  ultimately show ?thesis using p a by simp
qed

section \<open>Properties of the costs\<close>

text \<open>
  Claim C4.  For a channel type of the table, \<open>present_node_cost\<close> returns 1 when
  \<open>over\<close>, the number of nets bound at the node minus the width of the type less one,
  minus one more if the net itself is bound there, is at most 0, and
  \<open>1 + over * curr_cong_weight\<close> otherwise.
\<close>

theorem present_node_cost_formula:
  assumes "vec_at (channel_types s) t = Inr c"
  shows "present_node_cost s w t N =
           Inr (let over = int (fcard (fmdom (bound_nets w))) - (ch_width c - 1) -
                           (if N |\<in>| fmdom (bound_nets w) then 1 else 0)
                in if over \<le> 0 then 1 else 1 + real_of_int over * curr_cong_weight s)"
  using assms by (simp add: present_node_cost_def Let_def)

theorem present_node_cost_formula_witness:
  "vec_at (channel_types ex_state) 0 = Inr ex_channel \<and>
   present_node_cost ex_state ex_three 0 7 = Inr (5 / 2) \<and>
   present_node_cost ex_state ex_three 0 2 = Inr 2 \<and>
   present_node_cost ex_state (ex_bound (fmupd 2 (1, ex_n0) fmempty)) 0 2 = Inr 1"
proof -
  have c: "vec_at (channel_types ex_state) 0 = Inr ex_channel"
    by (simp add: vec_at_def ex_state_def ex_grid_def)
  have card3: "fcard (fmdom (bound_nets ex_three)) = 3"
    by (simp add: ex_three_def ex_bound_def fcard_finsert_if)
  note t = present_node_cost_formula [OF c]
  have "present_node_cost ex_state ex_three 0 7 = Inr (5 / 2)"
    using t [of ex_three 7] card3
    by (simp add: ex_three_def ex_bound_def ex_channel_def ex_state_def ex_grid_def)
  moreover have "present_node_cost ex_state ex_three 0 2 = Inr 2"
    using t [of ex_three 2] card3
    by (simp add: ex_three_def ex_bound_def ex_channel_def ex_state_def ex_grid_def)
  moreover have "present_node_cost ex_state (ex_bound (fmupd 2 (1, ex_n0) fmempty)) 0 2 = Inr 1"
    using t [of "ex_bound (fmupd 2 (1, ex_n0) fmempty)" 2]
    by (simp add: ex_bound_def ex_channel_def fcard_finsert_if)
  ultimately show ?thesis using c by simp
qed

text \<open>Where a divisor of the score is zero (a net without users, a half-perimeter of 0, as
  \<open>setup_net\<close> writes it for a net without driver, or a use count of \<open>- 1\<close>), the result
  of \<open>score_node_for_arc\<close> is no real number.\<close>

lemma score_node_for_arc_not_finite:
  assumes "node_data s node = Inr wd"
    and "vec_at (nets s) (udata net) = Inr nd"
    and "vec_at (channel_types s) (ntype node) = Inr c"
    and "users net = [] \<or> hpwl nd = 0 \<or> source_uses wd (udata net) = - 1"
  shows "score_node_for_arc s net user node = Inl NotFinite"
proof -
  have "\<exists>present. present_node_cost s wd (ntype node) (udata net) = Inr present"
    using assms(3) by (auto simp: present_node_cost_def Let_def)
  then obtain present where p: "present_node_cost s wd (ntype node) (udata net) = Inr present" ..
  from assms(4) show ?thesis
    by (auto simp: score_node_for_arc_def assms(1-3) p float_div_def Let_def)
qed

lemma ex_flat_score: "score_node_for_arc ex_flat ex_net0 0 ex_n2 = Inl NotFinite"
proof -
  have "node_data ex_flat ex_n2 = Inr (ex_three\<lparr>hist_cong_cost := 3\<rparr>)"
    by (simp add: node_data_def node_index_def vec_at_def ex_flat_def ex_busy_def ex_state_def
          ex_grid_def ex_n2_def)
  moreover have "vec_at (nets ex_flat) (udata ex_net0) = Inr ((ex_netdata True)\<lparr>hpwl := 0\<rparr>)"
    by (simp add: vec_at_def ex_flat_def ex_net0_def)
  moreover have "vec_at (channel_types ex_flat) (ntype ex_n2) = Inr ex_channel"
    by (simp add: vec_at_def ex_flat_def ex_busy_def ex_state_def ex_grid_def ex_n2_def)
  ultimately show ?thesis
    by (rule score_node_for_arc_not_finite) simp
qed

text \<open>
  Claim C8.  For a node of the grid, a net of the table with at least one user and a channel
  type of the table, and with the half-perimeter of the net and \<open>1 + source_uses\<close> other than
  0 (so that no divisor is zero), \<open>score_node_for_arc\<close> returns
  \<open>base * hist * present / (1 + source_uses) + bias\<close>.  Here \<open>base\<close> is the cost of the
  channel type, \<open>hist\<close> the historical cost of the node, \<open>present\<close> is 1 when \<open>over\<close>,
  the number of nets bound at the node minus the width of the type less one, minus one more
  if the net itself is bound there, is at most 0, and \<open>1 + over * curr_cong_weight\<close>
  otherwise, \<open>source_uses\<close> is the use count of the net at the node (0 when it has no entry
  there), and \<open>bias\<close> is \<open>bias_cost_factor * (base / |users|) * (|x - cx| + |y - cy|) / hpwl\<close>.
\<close>

theorem score_node_for_arc_formula:
  assumes "node_data s node = Inr wd"
    and "vec_at (nets s) (udata net) = Inr nd"
    and "vec_at (channel_types s) (ntype node) = Inr c"
    and "users net \<noteq> []"
    and "hpwl nd \<noteq> 0"
    and "source_uses wd (udata net) \<noteq> - 1"
  shows "score_node_for_arc s net user node =
           (let over = int (fcard (fmdom (bound_nets wd))) - (ch_width c - 1) -
                       (if udata net |\<in>| fmdom (bound_nets wd) then 1 else 0);
                present = (if over \<le> 0 then 1 else 1 + real_of_int over * curr_cong_weight s);
                uses = (case fmlookup (bound_nets wd) (udata net) of
                          None \<Rightarrow> 0
                        | Some b \<Rightarrow> fst b);
                base = ch_cost c;
                bias = bias_cost_factor (cfg s) * (base / real (length (users net))) *
                       real_of_int (\<bar>nx node - cx nd\<bar> + \<bar>ny node - cy nd\<bar>) /
                       real_of_int (hpwl nd)
            in Inr (base * hist_cong_cost wd * present / real_of_int (1 + uses) + bias))"
proof -
  define present where
    "present =
       (if int (fcard (fmdom (bound_nets wd))) - (ch_width c - 1) -
             (if udata net |\<in>| fmdom (bound_nets wd) then 1 else 0) \<le> 0
        then 1
        else 1 + real_of_int (int (fcard (fmdom (bound_nets wd))) - (ch_width c - 1) -
                   (if udata net |\<in>| fmdom (bound_nets wd) then 1 else 0)) *
                 curr_cong_weight s)"
  define uses where "uses = source_uses wd (udata net)"
  define dist where "dist = real_of_int (\<bar>nx node - cx nd\<bar> + \<bar>ny node - cy nd\<bar>)"
  have p: "present_node_cost s wd (ntype node) (udata net) = Inr present"
    using assms(3) by (simp add: present_node_cost_def Let_def present_def)
  have u: "real_of_int (int (length (users net))) \<noteq> 0"
    using assms(4) by simp
  have h: "real_of_int (hpwl nd) \<noteq> 0"
    using assms(5) by simp
  have "1 + uses \<noteq> 0"
    using assms(6) unfolding uses_def by arith
  then have d: "real_of_int (1 + uses) \<noteq> 0"
    by (simp only: of_int_eq_0_iff not_False_eq_True)
  have "score_node_for_arc s net user node =
          (case float_div (ch_cost c) (real_of_int (int (length (users net)))) of
             Inl e \<Rightarrow> Inl e
           | Inr cost_per_user \<Rightarrow>
          (case float_div dist (real_of_int (hpwl nd)) of
             Inl e \<Rightarrow> Inl e
           | Inr distance \<Rightarrow>
          (case float_div (ch_cost c * hist_cong_cost wd * present) (real_of_int (1 + uses)) of
             Inl e \<Rightarrow> Inl e
           | Inr discounted \<Rightarrow>
               Inr (discounted + bias_cost_factor (cfg s) * cost_per_user * distance))))"
    by (simp only: score_node_for_arc_def assms(1-3) p sum.case Let_def uses_def dist_def)
  also have "\<dots> =
          Inr (ch_cost c * hist_cong_cost wd * present / real_of_int (1 + uses) +
               bias_cost_factor (cfg s) * (ch_cost c / real_of_int (int (length (users net)))) *
                 (dist / real_of_int (hpwl nd)))"
    by (simp only: float_div_def u h d if_False sum.case)
  finally have "score_node_for_arc s net user node =
          Inr (ch_cost c * hist_cong_cost wd * present / real_of_int (1 + uses) +
               bias_cost_factor (cfg s) * (ch_cost c / real (length (users net))) *
                 dist / real_of_int (hpwl nd))"
    by simp
  then show ?thesis
    by (simp only: Let_def present_def uses_def dist_def source_uses_def)
qed

theorem score_node_for_arc_formula_witness:
  "node_data ex_busy ex_n2 = Inr (ex_three\<lparr>hist_cong_cost := 3\<rparr>) \<and>
   vec_at (nets ex_busy) (udata ex_net0) = Inr (ex_netdata True) \<and>
   vec_at (channel_types ex_busy) (ntype ex_n2) = Inr ex_channel \<and>
   users ex_net0 \<noteq> [] \<and>
   hpwl (ex_netdata True) \<noteq> 0 \<and>
   source_uses (ex_three\<lparr>hist_cong_cost := 3\<rparr>) (udata ex_net0) \<noteq> - 1 \<and>
   present_node_cost ex_busy (ex_three\<lparr>hist_cong_cost := 3\<rparr>) (ntype ex_n2) (udata ex_net0) = Inr 2 \<and>
   score_node_for_arc ex_busy ex_net0 0 ex_n2 = Inr (15 / 2)"
proof -
  have nd: "node_data ex_busy ex_n2 = Inr (ex_three\<lparr>hist_cong_cost := 3\<rparr>)"
    by (simp add: node_data_def node_index_def vec_at_def ex_busy_def ex_state_def ex_grid_def
          ex_n2_def)
  have nt: "vec_at (nets ex_busy) (udata ex_net0) = Inr (ex_netdata True)"
    by (simp add: vec_at_def ex_busy_def ex_state_def ex_grid_def ex_net0_def)
  have ct: "vec_at (channel_types ex_busy) (ntype ex_n2) = Inr ex_channel"
    by (simp add: vec_at_def ex_busy_def ex_state_def ex_grid_def ex_n2_def)
  have us: "users ex_net0 \<noteq> []" by (simp add: ex_net0_def)
  have hp: "hpwl (ex_netdata True) \<noteq> 0" by (simp add: ex_netdata_def)
  have su: "source_uses (ex_three\<lparr>hist_cong_cost := 3\<rparr>) (udata ex_net0) \<noteq> - 1"
    by (simp add: source_uses_def ex_three_def ex_bound_def ex_net0_def)
  have card3: "fcard (fmdom (bound_nets (ex_three\<lparr>hist_cong_cost := 3\<rparr>))) = 3"
    by (simp add: ex_three_def ex_bound_def fcard_finsert_if)
  have cw: "curr_cong_weight ex_busy = 1 / 2" "cfg ex_busy = ex_cfg\<lparr>bias_cost_factor := 3\<rparr>"
    by (simp_all add: ex_busy_def ex_state_def ex_grid_def)
  have pr: "present_node_cost ex_busy (ex_three\<lparr>hist_cong_cost := 3\<rparr>) (ntype ex_n2) (udata ex_net0) = Inr 2"
    using ct card3
    by (simp add: present_node_cost_def cw ex_three_def ex_bound_def ex_net0_def ex_channel_def)
  have "score_node_for_arc ex_busy ex_net0 0 ex_n2 = Inr (15 / 2)"
    using score_node_for_arc_formula [OF nd nt ct us hp su, of 0] card3
    by (simp add: cw ex_three_def ex_bound_def ex_net0_def ex_channel_def ex_netdata_def
          ex_n2_def ex_cfg_def)
  with nd nt ct us hp su pr show ?thesis by simp
qed

text \<open>
  Claim C5.  \<open>get_togo_cost\<close> keeps its numerator in an \<^verbatim>\<open>int\<close> and divides it by the
  \<^verbatim>\<open>int\<close> \<open>1 + source_uses\<close>, so the quotient is cut to a whole number.  From
  \<open>(1, 0, 0)\<close>, which the net uses twice, to the sink \<open>(0, 0, 0)\<close>, with the weights
  1, 1 and 0, the real quotient is \<open>1 / 3\<close> and the function returns 0.
\<close>

theorem get_togo_cost_integer_division:
  "get_togo_cost ex_state ex_net0 0 ex_n1 ex_n0 = Inr 0 \<and>
   (togo_cost_dx (cfg ex_state) * real_of_int \<bar>nx ex_n1 - nx ex_n0\<bar> +
    togo_cost_dy (cfg ex_state) * real_of_int \<bar>ny ex_n1 - ny ex_n0\<bar> +
    togo_cost_adder (cfg ex_state)) / real_of_int (1 + 2) = 1 / 3 \<and>
   node_data ex_state ex_n1 = Inr (ex_bound (fmupd 0 (2, ex_n0) fmempty)) \<and>
   source_uses (ex_bound (fmupd 0 (2, ex_n0) fmempty)) (udata ex_net0) = 2"
proof -
  have nd: "node_data ex_state ex_n1 = Inr (ex_bound (fmupd 0 (2, ex_n0) fmempty))"
    by (simp add: node_data_def node_index_def vec_at_def ex_state_def ex_grid_def ex_n1_def)
  have su: "source_uses (ex_bound (fmupd 0 (2, ex_n0) fmempty)) (udata ex_net0) = 2"
    by (simp add: source_uses_def ex_bound_def ex_net0_def)
  have cf: "cfg ex_state = ex_cfg" by (simp add: ex_state_def ex_grid_def)
  have "get_togo_cost ex_state ex_net0 0 ex_n1 ex_n0 = Inr 0"
    apply (simp add: get_togo_cost_def nd su cf)
    apply (simp add: ex_cfg_def ex_n1_def ex_n0_def float_to_int_def int_div_def)
    done
  then show ?thesis using nd su
    by (simp add: cf ex_cfg_def ex_n1_def ex_n0_def)
qed

section \<open>Properties of the queue order\<close>

text \<open>The order is transitive in both directions, so the scan of \<open>pq_top\<close> ends with an
  entry that \<open>QueuedNode_Greater\<close> puts above no entry of the queue: one of least total
  score and, among those, of least random tag.\<close>

lemma Greater_trans:
  "QueuedNode_Greater a b \<Longrightarrow> QueuedNode_Greater b c \<Longrightarrow> QueuedNode_Greater a c"
  by (auto simp: QueuedNode_Greater_def Let_def split: if_splits)

lemma not_Greater_trans:
  "\<not> QueuedNode_Greater a b \<Longrightarrow> \<not> QueuedNode_Greater b c \<Longrightarrow> \<not> QueuedNode_Greater a c"
  by (auto simp: QueuedNode_Greater_def Let_def split: if_splits)

lemma not_Greater_refl: "\<not> QueuedNode_Greater a a"
  by (simp add: QueuedNode_Greater_def)

lemma scan_Greater_least:
  "foldl (\<lambda>m b. if QueuedNode_Greater m b then b else m) a as = r \<Longrightarrow>
   r \<in> set (a # as) \<and> (\<forall>e\<in>set (a # as). \<not> QueuedNode_Greater r e)"
proof (induction as arbitrary: a)
  case Nil
  then show ?case by (simp add: not_Greater_refl)
next
  case (Cons b as)
  let ?a' = "if QueuedNode_Greater a b then b else a"
  from Cons.prems have "foldl (\<lambda>m b. if QueuedNode_Greater m b then b else m) ?a' as = r"
    by simp
  from Cons.IH[OF this] have r: "r \<in> set (?a' # as)"
    and least: "\<forall>e\<in>set (?a' # as). \<not> QueuedNode_Greater r e" by simp_all
  have "\<not> QueuedNode_Greater r a \<and> \<not> QueuedNode_Greater r b"
  proof (cases "QueuedNode_Greater a b")
    case True
    with least have "\<not> QueuedNode_Greater r b" by simp
    with True Greater_trans[of r a b] show ?thesis by blast
  next
    case False
    with least have "\<not> QueuedNode_Greater r a" by simp
    with False not_Greater_trans[of r a b] show ?thesis by blast
  qed
  with r least show ?case by (auto split: if_splits)
qed

lemma pq_top_Greater_least:
  assumes "pq_top QueuedNode_Greater q = Some r"
  shows "r \<in> set q \<and> (\<forall>e\<in>set q. \<not> QueuedNode_Greater r e)"
proof (cases q)
  case Nil
  with assms show ?thesis by simp
next
  case (Cons a as)
  with assms scan_Greater_least[of a as r] show ?thesis by simp
qed

text \<open>
  Claim C6, as stated: of two queue entries with equal total score, the one with the larger
  random tag is popped first.  It fails for the entries with the tags 2 and 1: in either
  order of insertion the top of the queue is the entry with the tag 1.
\<close>

theorem Greater_larger_randtag_counterexample:
  "cost (qn_score (ex_queued 2)) + togo_cost (qn_score (ex_queued 2)) =
     cost (qn_score (ex_queued 1)) + togo_cost (qn_score (ex_queued 1)) \<and>
   randtag (ex_queued 2) > randtag (ex_queued 1) \<and>
   pq_top QueuedNode_Greater [ex_queued 2, ex_queued 1] = Some (ex_queued 1) \<and>
   pq_top QueuedNode_Greater [ex_queued 1, ex_queued 2] = Some (ex_queued 1)"
  by (simp add: QueuedNode_Greater_def ex_queued_def)

text \<open>
  Claim C6, amended.  Of two queue entries with equal total score, \<open>QueuedNode_Greater\<close>
  puts the one with the larger random tag above the other, and a priority queue ordered by
  it pops the entry with the smaller random tag first.
\<close>

theorem Greater_pops_smaller_randtag:
  assumes "cost (qn_score a) + togo_cost (qn_score a) = cost (qn_score b) + togo_cost (qn_score b)"
    and "randtag a < randtag b"
  shows "QueuedNode_Greater b a \<and> \<not> QueuedNode_Greater a b \<and>
         pq_top QueuedNode_Greater [a, b] = Some a \<and>
         pq_top QueuedNode_Greater [b, a] = Some a"
  using assms by (simp add: QueuedNode_Greater_def)

theorem Greater_pops_smaller_randtag_witness:
  "cost (qn_score (ex_queued 1)) + togo_cost (qn_score (ex_queued 1)) =
     cost (qn_score (ex_queued 2)) + togo_cost (qn_score (ex_queued 2)) \<and>
   randtag (ex_queued 1) < randtag (ex_queued 2) \<and>
   QueuedNode_Greater (ex_queued 2) (ex_queued 1) \<and>
   \<not> QueuedNode_Greater (ex_queued 1) (ex_queued 2) \<and>
   pq_top QueuedNode_Greater [ex_queued 1, ex_queued 2] = Some (ex_queued 1) \<and>
   pq_top QueuedNode_Greater [ex_queued 2, ex_queued 1] = Some (ex_queued 1)"
proof -
  have h1: "cost (qn_score (ex_queued 1)) + togo_cost (qn_score (ex_queued 1)) =
     cost (qn_score (ex_queued 2)) + togo_cost (qn_score (ex_queued 2))"
    by (simp add: ex_queued_def)
  have h2: "randtag (ex_queued 1) < randtag (ex_queued 2)"
    by (simp add: ex_queued_def)
  from Greater_pops_smaller_randtag [OF h1 h2] h1 h2 show ?thesis by simp
qed

section \<open>Properties of the net setup\<close>

text \<open>A round of the loop writes the counter into \<^verbatim>\<open>udata\<close>, and raises the counter only
  if the net has a driver; so the net after an undriven net gets the same \<^verbatim>\<open>udata\<close>.\<close>

lemma setup_net_counter:
  assumes "setup_net g ni i s = Inr (ni', i', s')"
  shows "udata ni' = int i \<and> i' = (if cell (driver ni) = None then i else i + 1)"
  using assms
  by (auto simp: setup_net_def Let_def split: if_splits sum.splits)

lemma setup_nets_loop_undriven_shares_udata:
  assumes "setup_nets_loop g (a # b # rest) i s = Inr (nis, s')" "cell (driver a) = None"
  shows "udata (nis ! 0) = int i \<and> udata (nis ! 1) = int i"
proof -
  from assms(1) obtain a' i1 s1 b' i2 s2 nis' where
    a: "setup_net g a i s = Inr (a', i1, s1)" and b: "setup_net g b i1 s1 = Inr (b', i2, s2)"
    and n: "nis = a' # b' # nis'"
    by (auto split: sum.splits prod.splits)
  from setup_net_counter[OF a] assms(2) have "udata a' = int i" "i1 = i" by simp_all
  moreover from setup_net_counter[OF b] have "udata b' = int i1" by simp
  ultimately show ?thesis using n by simp
qed

text \<open>
  Claim C7.  \<open>setup_nets\<close> does not give every net an id of its own: a net without
  driver leaves the loop body before the counter is raised, so the next net gets the same
  id and the same slots.  For the netlist of the undriven net \<open>a\<close> and the driven net
  \<open>b\<close>, both nets end with \<^verbatim>\<open>udata\<close> 0, slot 0 of \<open>nets_by_udata\<close> names \<open>b\<close>
  and slot 1 is never written.
\<close>

theorem setup_nets_reuses_udata_after_undriven_net:
  "(case setup_nets ex_graph ex_netlist ex_unset of
      Inl e \<Rightarrow> None
    | Inr (c, s) \<Rightarrow> Some (map name (ctx_nets c), map udata (ctx_nets c), nets_by_udata s,
                         map hpwl (nets s))) =
   Some ([''a'', ''b''], [0, 0], [Some ''b'', None], [2, 0])"
  by (simp add: setup_nets_def setup_net_def setup_arc_def resize_def vec_at_def
        ex_netlist_def ex_unset_def ex_undriven_def ex_driven_def ex_graph_def
        ex_n0_def ex_n2_def PerArcData_default_def Let_def INT_MAX_def INT_MIN_def int_div_def)

section \<open>Properties of the graph setup\<close>

lemma for_each_Inr_all:
  assumes "for_each as body s = Inr s'" and "I s"
    and "\<And>a s1 s2. a \<in> set as \<Longrightarrow> I s1 \<Longrightarrow> body a s1 = Inr s2 \<Longrightarrow> I s2 \<and> P a"
  shows "I s' \<and> (\<forall>a\<in>set as. P a)"
  using assms
proof (induction as arbitrary: s)
  case Nil
  then show ?case by simp
next
  case (Cons a as)
  from Cons.prems(1) obtain s1 where b: "body a s = Inr s1" and r: "for_each as body s1 = Inr s'"
    by (auto split: sum.splits)
  from Cons.prems(3)[of a s s1] b Cons.prems(2) have "I s1" "P a" by simp_all
  moreover have "I s' \<and> (\<forall>a\<in>set as. P a)"
  proof (rule Cons.IH[OF r \<open>I s1\<close>])
    fix b s2 s3
    assume "b \<in> set as" "I s2" "body b s2 = Inr s3"
    then show "I s3 \<and> P b" using Cons.prems(3)[of b s2 s3] by simp
  qed
  ultimately show ?case by simp
qed

lemma length_update2 [simp]: "length (update2 v i j f) = length v"
  by (simp add: update2_def)

lemma setup_downhill_Inr:
  assumes "setup_downhill x y t c dh s = Inr s'" "grid_shape W H T s"
  shows "grid_shape W H T s' \<and> edge_checked W (W * H) T x y c dh"
  using assms
  by (auto simp: setup_downhill_def grid_shape_def edge_checked_def vec_at_def
           split: if_splits sum.splits prod.splits)

lemma setup_type_Inr:
  assumes "setup_type x y t s = Inr s'" "grid_shape W H T s"
  shows "grid_shape W H T s' \<and>
         (\<exists>c. vec_at T t = Inr c \<and> (\<forall>dh\<in>set (ch_downhill c). edge_checked W (W * H) T x y c dh))"
proof -
  from assms obtain c where c: "vec_at T t = Inr c"
    and f: "for_each (ch_downhill c) (setup_downhill x y t c) s = Inr s'"
    by (auto simp: setup_type_def grid_shape_def split: sum.splits)
  from for_each_Inr_all[where I = "grid_shape W H T" and P = "edge_checked W (W * H) T x y c", OF f assms(2)]
    setup_downhill_Inr
  have "grid_shape W H T s' \<and> (\<forall>dh\<in>set (ch_downhill c). edge_checked W (W * H) T x y c dh)"
    by blast
  with c show ?thesis by blast
qed

lemma setup_cells_Inr:
  assumes "for_each [0..H - 1]
             (\<lambda>y. for_each [0..W - 1]
               (\<lambda>x. for_each [0..int (length T) - 1] (setup_type x y))) s = Inr s'"
    and "grid_shape W H T s"
  shows "\<forall>y\<in>set [0..H - 1]. \<forall>x\<in>set [0..W - 1]. cell_checked W (W * H) T x y"
proof -
  have types: "grid_shape W H T s2 \<and> cell_checked W (W * H) T x y"
    if "for_each [0..int (length T) - 1] (setup_type x y) s1 = Inr s2" "grid_shape W H T s1"
    for x y s1 s2
    unfolding cell_checked_def
    using for_each_Inr_all[where I = "grid_shape W H T"
        and P = "\<lambda>t. \<exists>c. vec_at T t = Inr c \<and>
                  (\<forall>dh\<in>set (ch_downhill c). edge_checked W (W * H) T x y c dh)", OF that]
      setup_type_Inr by blast
  have row: "grid_shape W H T s2 \<and> (\<forall>x\<in>set [0..W - 1]. cell_checked W (W * H) T x y)"
    if "for_each [0..W - 1] (\<lambda>x. for_each [0..int (length T) - 1] (setup_type x y)) s1 = Inr s2"
      "grid_shape W H T s1"
    for y s1 s2
    using for_each_Inr_all[where I = "grid_shape W H T"
        and P = "\<lambda>x. cell_checked W (W * H) T x y", OF that] types by blast
  from for_each_Inr_all[where I = "grid_shape W H T"
        and P = "\<lambda>y. \<forall>x\<in>set [0..W - 1]. cell_checked W (W * H) T x y", OF assms] row
  show ?thesis by blast
qed

lemma resize_cell_Inr:
  assumes "resize_cell y x s = Inr s'" "grid_shape W H T s"
  shows "grid_shape W H T s'"
  using assms by (auto simp: resize_cell_def grid_shape_def split: sum.splits)

lemma resize_cells_Inr:
  assumes "for_each [0..H - 1] (\<lambda>y. for_each [0..W - 1] (resize_cell y)) s = Inr s'"
    and "grid_shape W H T s"
  shows "grid_shape W H T s'"
proof -
  have row: "grid_shape W H T s2 \<and> True"
    if "for_each [0..W - 1] (resize_cell y) s1 = Inr s2" "grid_shape W H T s1" for y s1 s2
    using for_each_Inr_all[where I = "grid_shape W H T" and P = "\<lambda>x. True", OF that]
      resize_cell_Inr by blast
  from for_each_Inr_all[where I = "grid_shape W H T" and P = "\<lambda>y. True", OF assms] row
  show ?thesis by blast
qed

lemma setup_nodes_Inr:
  assumes "setup_nodes g s = Inr s'"
  shows "\<forall>y\<in>set [0..get_height g - 1]. \<forall>x\<in>set [0..get_width g - 1].
           cell_checked (get_width g) (get_width g * get_height g) (get_channels g) x y"
proof -
  let ?W = "get_width g" and ?H = "get_height g" and ?T = "get_channels g"
  let ?s3 = "s\<lparr>width := ?W, height := ?H,
                nodes := resize (nodes s) (nat (?W * ?H)) [], channel_types := ?T\<rparr>"
  from assms have nonneg: "0 \<le> ?W * ?H"
    by (auto simp: setup_nodes_def Let_def split: if_splits)
  then have shape: "grid_shape ?W ?H ?T ?s3"
    by (simp add: grid_shape_def resize_def)
  from assms nonneg obtain s4 where
    r: "for_each [0..?H - 1] (\<lambda>y. for_each [0..?W - 1] (resize_cell y)) ?s3 = Inr s4"
    and m: "for_each [0..height s4 - 1]
              (\<lambda>y. for_each [0..width s4 - 1]
                (\<lambda>x. for_each [0..int (length (channel_types s4)) - 1] (setup_type x y))) s4 = Inr s'"
    by (auto simp: setup_nodes_def Let_def split: if_splits sum.splits)
  from resize_cells_Inr[OF r shape] have s4: "grid_shape ?W ?H ?T s4" .
  then have "width s4 = ?W" "height s4 = ?H" "channel_types s4 = ?T"
    by (simp_all add: grid_shape_def)
  with m setup_cells_Inr[of ?H ?W ?T s4 s'] s4 show ?thesis by simp
qed


lemma displace_origin:
  "displace d a (x, y) = (x + fst (displace d a (0, 0)), y + snd (displace d a (0, 0)))"
  by (cases d) simp_all

lemma displace_axis: "fst (displace d a (0, 0)) = 0 \<or> snd (displace d a (0, 0)) = 0"
  by (cases d) simp_all

lemma offset_zero:
  fixes W H dx dy :: int
  assumes "0 < W" "dx = 0 \<or> dy = 0"
    and lo: "0 \<le> (0 + dy) * W + (0 + dx)"
    and hi: "(H - 1 + dy) * W + (W - 1 + dx) < W * H"
  shows "dx = 0 \<and> dy = 0"
proof -
  from hi have "dy * W + dx < 1" by (simp add: algebra_simps)
  with lo have z: "dy * W + dx = 0" by simp
  from assms(2) show ?thesis
  proof
    assume "dx = 0"
    with z assms(1) show ?thesis by simp
  next
    assume "dy = 0"
    with z show ?thesis by simp
  qed
qed

lemma checked_at_corners_in_grid:
  fixes W H :: int
  assumes cell: "0 \<le> x" "x < W" "0 \<le> y" "y < H"
    and lo: "case displace d a (0, 0) of (u, v) \<Rightarrow> 0 \<le> v * W + u \<and> v * W + u < W * H"
    and hi: "case displace d a (W - 1, H - 1) of (u, v) \<Rightarrow> 0 \<le> v * W + u \<and> v * W + u < W * H"
  shows "displace d a (x, y) = (x, y)"
proof -
  let ?dx = "fst (displace d a (0, 0))" and ?dy = "snd (displace d a (0, 0))"
  from cell have W: "0 < W" by simp
  from lo have l: "0 \<le> (0 + ?dy) * W + (0 + ?dx)" by (simp add: case_prod_beta)
  from hi have h: "(H - 1 + ?dy) * W + (W - 1 + ?dx) < W * H"
    by (subst (asm) displace_origin) simp
  from offset_zero[OF W displace_axis l h] have "?dx = 0 \<and> ?dy = 0" .
  then show ?thesis by (subst displace_origin) simp
qed

lemma for_each_Inl:
  assumes "for_each as body s = Inl e"
  shows "\<exists>a s1. a \<in> set as \<and> body a s1 = Inl e"
  using assms
proof (induction as arbitrary: s)
  case Nil
  then show ?case by simp
next
  case (Cons a as)
  show ?case
  proof (cases "body a s")
    case (Inl e')
    with Cons.prems show ?thesis by auto
  next
    case (Inr s1)
    with Cons.prems have "for_each as body s1 = Inl e" by simp
    from Cons.IH[OF this] show ?thesis by auto
  qed
qed

lemma setup_downhill_Inl:
  "setup_downhill x y t c dh s = Inl e \<Longrightarrow> e = OutOfRange \<or> e = AssertionFailure"
  by (auto simp: setup_downhill_def vec_at_def split: if_splits sum.splits prod.splits)

lemma setup_type_Inl:
  assumes "setup_type x y t s = Inl e"
  shows "e = OutOfRange \<or> e = AssertionFailure"
proof (cases "vec_at (channel_types s) t")
  case (Inl e')
  with assms show ?thesis by (auto simp: setup_type_def vec_at_def split: if_splits)
next
  case (Inr c)
  with assms have "for_each (ch_downhill c) (setup_downhill x y t c) s = Inl e"
    by (simp add: setup_type_def)
  from for_each_Inl[OF this] setup_downhill_Inl show ?thesis by blast
qed

lemma resize_cell_Inl: "resize_cell y x s = Inl e \<Longrightarrow> e = OutOfRange"
  by (auto simp: resize_cell_def vec_at_def split: if_splits sum.splits)

lemma setup_nodes_Inl:
  assumes "setup_nodes g s = Inl e"
  shows "e = OutOfRange \<or> e = AssertionFailure \<or>
         (e = LengthError \<and> get_width g * get_height g < 0)"
proof (cases "get_width g * get_height g < 0")
  case True
  with assms show ?thesis by (simp add: setup_nodes_def Let_def)
next
  case False
  let ?s3 = "s\<lparr>width := get_width g, height := get_height g,
                nodes := resize (nodes s) (nat (get_width g * get_height g)) [],
                channel_types := get_channels g\<rparr>"
  show ?thesis
  proof (cases "for_each [0..get_height g - 1]
                  (\<lambda>y. for_each [0..get_width g - 1] (resize_cell y)) ?s3")
    case (Inl e')
    with assms False have "e' = e" by (simp add: setup_nodes_def Let_def)
    with Inl for_each_Inl[OF Inl] obtain y s1 where
      "for_each [0..get_width g - 1] (resize_cell y) s1 = Inl e" by auto
    from for_each_Inl[OF this] resize_cell_Inl show ?thesis by blast
  next
    case (Inr s4)
    with assms False have
      "for_each [0..height s4 - 1]
         (\<lambda>y. for_each [0..width s4 - 1]
           (\<lambda>x. for_each [0..int (length (channel_types s4)) - 1] (setup_type x y))) s4 = Inl e"
      by (simp add: setup_nodes_def Let_def)
    from for_each_Inl[OF this] obtain y s1 where
      "for_each [0..width s4 - 1]
         (\<lambda>x. for_each [0..int (length (channel_types s4)) - 1] (setup_type x y)) s1 = Inl e"
      by auto
    from for_each_Inl[OF this] obtain x s2 where
      "for_each [0..int (length (channel_types s4)) - 1] (setup_type x y) s2 = Inl e"
      by auto
    from for_each_Inl[OF this] setup_type_Inl show ?thesis by blast
  qed
qed

text \<open>
  Claim C2.  If a downhill template of a channel type of the device, applied at a cell of the
  grid, gives a source or a destination coordinate outside the grid, \<open>setup_nodes\<close> fails:
  it returns the error of a \<^verbatim>\<open>vector::at\<close> out of range or of a failed assertion, and no
  state with the adjacency of such an edge.  (The cell where the coordinate leaves the grid
  need not be the one where the run fails: the flattened index of a coordinate beyond the
  end of a row is that of a cell of the next row.  But a template that leaves the grid at some
  cell has a flattened index outside the vector at the first or the last cell.)
\<close>

theorem setup_nodes_rejects_edges_outside_grid:
  assumes cell: "0 \<le> x \<and> x < get_width g \<and> 0 \<le> y \<and> y < get_height g"
    and t: "vec_at (get_channels g) t = Inr c"
    and dh: "dh \<in> set (ch_downhill c)"
    and out: "(case displace (ch_dir c) (src_along dh) (x, y) of
                 (start_x, start_y) \<Rightarrow>
                   \<not> (0 \<le> start_x \<and> start_x < get_width g \<and> 0 \<le> start_y \<and> start_y < get_height g)) \<or>
              (\<exists>d. vec_at (get_channels g) (dst_type dh) = Inr d \<and>
                 (case displace (ch_dir d) (dst_along dh) (x, y) of
                    (end_x, end_y) \<Rightarrow>
                      \<not> (0 \<le> end_x \<and> end_x < get_width g \<and> 0 \<le> end_y \<and> end_y < get_height g)))"
  shows "setup_nodes g s = Inl OutOfRange \<or> setup_nodes g s = Inl AssertionFailure"
proof (cases "setup_nodes g s")
  case (Inl e)
  from cell have "0 \<le> get_width g" "0 \<le> get_height g" by simp_all
  then have "0 \<le> get_width g * get_height g" by (rule mult_nonneg_nonneg)
  then have "\<not> get_width g * get_height g < 0" by simp
  with setup_nodes_Inl[OF Inl] Inl show ?thesis by auto
next
  case (Inr s')
  let ?W = "get_width g" and ?H = "get_height g" and ?T = "get_channels g"
  from cell have xy: "0 \<le> x" "x < ?W" "0 \<le> y" "y < ?H" by simp_all
  from t have tr: "t \<in> set [0..int (length ?T) - 1]" by (auto simp: vec_at_def split: if_splits)
  have corner: "edge_checked ?W (?W * ?H) ?T x' y' c dh"
    if "x' \<in> set [0..?W - 1]" "y' \<in> set [0..?H - 1]" for x' y'
    using setup_nodes_Inr[OF Inr] that tr t dh unfolding cell_checked_def by fastforce
  from xy have c0: "edge_checked ?W (?W * ?H) ?T 0 0 c dh"
    and c1: "edge_checked ?W (?W * ?H) ?T (?W - 1) (?H - 1) c dh"
    by (auto intro!: corner)
  from c0 obtain d where d: "vec_at ?T (dst_type dh) = Inr d"
    by (auto simp: edge_checked_def split: sum.splits)
  have src: "displace (ch_dir c) (src_along dh) (x, y) = (x, y)"
    using c0 c1 by (intro checked_at_corners_in_grid[OF xy]) (simp_all add: edge_checked_def)
  have dst: "displace (ch_dir d) (dst_along dh) (x, y) = (x, y)"
    using c0 c1 d by (intro checked_at_corners_in_grid[OF xy]) (simp_all add: edge_checked_def)
  from out src dst d xy show ?thesis by simp
qed

theorem setup_nodes_rejects_edges_outside_grid_witness:
  "((0::int) \<le> 1 \<and> 1 < get_width ex_west_graph \<and> (0::int) \<le> 0 \<and> 0 < get_height ex_west_graph) \<and>
   vec_at (get_channels ex_west_graph) 0 = Inr ex_west \<and>
   \<lparr>src_along = 1, dst_type = 0, dst_along = 0\<rparr> \<in> set (ch_downhill ex_west) \<and>
   displace (ch_dir ex_west) (src_along \<lparr>src_along = 1, dst_type = 0, dst_along = 0\<rparr>) (1, 0) = (2, 0) \<and>
   \<not> (2 < get_width ex_west_graph) \<and>
   (setup_nodes ex_west_graph ex_unset = Inl OutOfRange \<or>
    setup_nodes ex_west_graph ex_unset = Inl AssertionFailure)"
proof -
  have h1: "(0::int) \<le> 1 \<and> 1 < get_width ex_west_graph \<and> (0::int) \<le> 0 \<and> 0 < get_height ex_west_graph"
    by (simp add: ex_west_graph_def)
  have h2: "vec_at (get_channels ex_west_graph) 0 = Inr ex_west"
    by (simp add: vec_at_def ex_west_graph_def)
  have h3: "\<lparr>src_along = 1, dst_type = 0, dst_along = 0\<rparr> \<in> set (ch_downhill ex_west)"
    by (simp add: ex_west_def)
  have d: "displace (ch_dir ex_west) (src_along \<lparr>src_along = 1, dst_type = 0, dst_along = 0\<rparr>) (1, 0) = (2, 0)"
    by (simp add: ex_west_def)
  have w: "\<not> (2 < get_width ex_west_graph)" by (simp add: ex_west_graph_def)
  from d w have h4:
    "(case displace (ch_dir ex_west) (src_along \<lparr>src_along = 1, dst_type = 0, dst_along = 0\<rparr>) (1, 0) of
        (start_x, start_y) \<Rightarrow>
          \<not> (0 \<le> start_x \<and> start_x < get_width ex_west_graph \<and>
             0 \<le> start_y \<and> start_y < get_height ex_west_graph)) \<or>
     (\<exists>d. vec_at (get_channels ex_west_graph) (dst_type \<lparr>src_along = 1, dst_type = 0, dst_along = 0\<rparr>) = Inr d \<and>
        (case displace (ch_dir d) (dst_along \<lparr>src_along = 1, dst_type = 0, dst_along = 0\<rparr>) (1, 0) of
           (end_x, end_y) \<Rightarrow>
             \<not> (0 \<le> end_x \<and> end_x < get_width ex_west_graph \<and>
                0 \<le> end_y \<and> end_y < get_height ex_west_graph)))"
    by simp
  from setup_nodes_rejects_edges_outside_grid [OF h1 h2 h3 h4, of ex_unset] h1 h2 h3 d w
  show ?thesis by blast
qed

text \<open>In the example the run passes the cell \<open>(1, 0)\<close>, where the source coordinate
  \<open>(2, 0)\<close> has the flattened index of the cell \<open>(0, 1)\<close>, and fails at the last cell.\<close>

lemma ex_west_setup: "setup_nodes ex_west_graph ex_unset = Inl OutOfRange"
  by (simp add: setup_nodes_def setup_type_def setup_downhill_def resize_cell_def resize_def
        vec_at_def update2_def Let_def ex_west_graph_def ex_west_def ex_unset_def upto.simps)

section \<open>Properties of the rip-up\<close>

lemma node_data_update_cong:
  "node_data s n = Inr wd \<Longrightarrow> f wd = g wd \<Longrightarrow> node_data_update s n f = node_data_update s n g"
  unfolding node_data_Inr_iff
  by (simp add: node_data_update_def update2_def)

lemma unbind_node_internal_unbound:
  assumes "node_data s n = Inr wd" "fmlookup (bound_nets wd) (udata net) = Some b"
  shows "unbind_node_internal s net n = Inr (node_data_update s n (unbound (udata net)))"
proof (cases "fst b - 1 = 0")
  case True
  with assms have "unbind_node_internal s net n =
      Inr (node_data_update s n (\<lambda>w. w\<lparr>bound_nets := fmdrop (udata net) (bound_nets w)\<rparr>))"
    by (simp add: unbind_node_internal_def)
  also have "node_data_update s n (\<lambda>w. w\<lparr>bound_nets := fmdrop (udata net) (bound_nets w)\<rparr>) =
             node_data_update s n (unbound (udata net))"
    using assms True by (intro node_data_update_cong[OF assms(1)]) (simp add: unbound_def)
  finally show ?thesis .
next
  case False
  with assms have "unbind_node_internal s net n =
      Inr (node_data_update s n
            (\<lambda>w. w\<lparr>bound_nets := fmupd (udata net) (fst b - 1, snd b) (bound_nets w)\<rparr>))"
    by (simp add: unbind_node_internal_def)
  also have "node_data_update s n
               (\<lambda>w. w\<lparr>bound_nets := fmupd (udata net) (fst b - 1, snd b) (bound_nets w)\<rparr>) =
             node_data_update s n (unbound (udata net))"
    using assms False by (intro node_data_update_cong[OF assms(1)]) (simp add: unbound_def)
  finally show ?thesis .
qed

lemma is_route_ConsE:
  assumes "is_route s net src c (n # p)"
  obtains wd b where "c = n" "n \<noteq> src" "node_data s n = Inr wd"
    "fmlookup (bound_nets wd) (udata net) = Some b" "is_route s net src (snd b) p"
proof -
  from assms have h: "c \<noteq> src" "n = c"
    and r: "case node_data s n of
              Inl e \<Rightarrow> False
            | Inr wd \<Rightarrow>
                (case fmlookup (bound_nets wd) (udata net) of
                   None \<Rightarrow> False
                 | Some b \<Rightarrow> is_route s net src (snd b) p)"
    by auto
  show thesis
  proof (cases "node_data s n")
    case (Inl e)
    with r show ?thesis by simp
  next
    case (Inr wd)
    show ?thesis
    proof (cases "fmlookup (bound_nets wd) (udata net)")
      case None
      with r Inr show ?thesis by simp
    next
      case (Some b)
      with r Inr h that show ?thesis by simp
    qed
  qed
qed

lemma is_route_determ:
  "is_route s net src c p \<Longrightarrow> is_route s net src c q \<Longrightarrow> p = q"
proof (induction p arbitrary: c q)
  case Nil
  then show ?case by (cases q) auto
next
  case (Cons n p)
  then show ?case
    by (cases q) (auto split: sum.splits option.splits)
qed

lemma is_route_suffix:
  "is_route s net src c (p1 @ n # p2) \<Longrightarrow> is_route s net src n (n # p2)"
  by (induction p1 arbitrary: c) (auto split: sum.splits option.splits)

lemma is_route_not_src: "is_route s net src c p \<Longrightarrow> src \<notin> set p"
  by (induction p arbitrary: c) (auto split: sum.splits option.splits)

lemma is_route_distinct: "is_route s net src c p \<Longrightarrow> distinct p"
proof (induction p arbitrary: c)
  case Nil
  then show ?case by simp
next
  case (Cons n p)
  from Cons.prems obtain wd b where c: "c = n"
    and nd: "node_data s n = Inr wd" "fmlookup (bound_nets wd) (udata net) = Some b"
    and rest: "is_route s net src (snd b) p"
    by (rule is_route_ConsE)
  have "n \<notin> set p"
  proof
    assume "n \<in> set p"
    then obtain p1 p2 where p: "p = p1 @ n # p2" by (auto simp: in_set_conv_decomp)
    with rest have "is_route s net src (snd b) (p1 @ n # p2)" by simp
    then have "is_route s net src n (n # p2)" by (rule is_route_suffix)
    moreover from Cons.prems c have "is_route s net src n (n # p)" by simp
    ultimately have "n # p2 = n # p" by (rule is_route_determ)
    with p show False by simp
  qed
  with Cons.IH[OF rest] show ?case by simp
qed

lemma is_route_bound:
  "is_route s net src c p \<Longrightarrow>
   \<forall>n\<in>set p. \<exists>wd b. node_data s n = Inr wd \<and> fmlookup (bound_nets wd) (udata net) = Some b"
  by (induction p arbitrary: c) (auto split: sum.splits option.splits)

lemma is_route_frame:
  assumes "node_data s n = Inr wd" "n \<notin> set p"
  shows "is_route (node_data_update s n f) net src c p = is_route s net src c p"
  using assms(2)
proof (induction p arbitrary: c)
  case Nil
  then show ?case by simp
next
  case (Cons k p)
  then have "k \<noteq> n" "n \<notin> set p" by auto
  with Cons.IH node_data_update_other[OF assms(1), of k f] show ?case
    by (simp split: sum.splits option.splits)
qed

lemma ripup_arc_loop_route:
  "is_route s net src c p \<Longrightarrow>
   ripup_arc_loop s net src c =
     Some (Inr (fold (\<lambda>n s. node_data_update s n (unbound (udata net))) p s))"
proof (induction p arbitrary: s c)
  case Nil
  then show ?case by (subst ripup_arc_loop.simps) simp
next
  case (Cons n p)
  from Cons.prems obtain wd b where c: "c = n" "n \<noteq> src"
    and nd: "node_data s n = Inr wd" "fmlookup (bound_nets wd) (udata net) = Some b"
    and rest: "is_route s net src (snd b) p"
    by (rule is_route_ConsE)
  let ?s1 = "node_data_update s n (unbound (udata net))"
  from is_route_distinct[OF Cons.prems] have "n \<notin> set p" by simp
  with rest nd(1) have "is_route ?s1 net src (snd b) p" by (simp add: is_route_frame)
  from Cons.IH[OF this] show ?case
    by (subst ripup_arc_loop.simps) (simp add: c nd unbind_node_internal_unbound[OF nd])
qed

lemma nets_node_data_update [simp]: "nets (node_data_update s n f) = nets s"
  by (simp add: node_data_update_def)

lemma nets_fold_update [simp]:
  "nets (fold (\<lambda>n s. node_data_update s n f) p s) = nets s"
  by (induction p arbitrary: s) simp_all

lemma node_data_nets_update [simp]: "node_data (s\<lparr>nets := v\<rparr>) n = node_data s n"
  by (simp add: node_data_def node_index_def)

lemma node_data_fold_update:
  assumes "distinct p" "\<forall>n\<in>set p. \<exists>wd. node_data s n = Inr wd"
  shows "node_data (fold (\<lambda>n s. node_data_update s n f) p s) m =
           (if m \<in> set p then (case node_data s m of Inl e \<Rightarrow> Inl e | Inr wd \<Rightarrow> Inr (f wd)) else node_data s m)"
  using assms
proof (induction p arbitrary: s)
  case Nil
  then show ?case by simp
next
  case (Cons n p)
  from Cons.prems obtain wd where nd: "node_data s n = Inr wd" by auto
  let ?s1 = "node_data_update s n f"
  have other: "node_data ?s1 k = node_data s k" if "k \<noteq> n" for k
    using node_data_update_other[OF nd that] .
  have "\<forall>k\<in>set p. \<exists>wd. node_data ?s1 k = Inr wd"
  proof
    fix k assume k: "k \<in> set p"
    with Cons.prems(1) have "k \<noteq> n" by auto
    with other[of k] Cons.prems(2) k show "\<exists>wd. node_data ?s1 k = Inr wd" by simp
  qed
  with Cons.IH[of ?s1] Cons.prems(1)
  have ih: "node_data (fold (\<lambda>n s. node_data_update s n f) p ?s1) m =
              (if m \<in> set p then (case node_data ?s1 m of Inl e \<Rightarrow> Inl e | Inr wd \<Rightarrow> Inr (f wd)) else node_data ?s1 m)"
    by simp
  show ?case
  proof (cases "m = n")
    case True
    with Cons.prems(1) ih nd show ?thesis by (simp add: node_data_update_same)
  next
    case False
    with ih show ?thesis by (simp add: other)
  qed
qed


lemma unbound_Some:
  "fmlookup (bound_nets wd) net_uid = Some (c, up) \<Longrightarrow>
   unbound net_uid wd =
     wd\<lparr>bound_nets := (if c = 1 then fmdrop net_uid (bound_nets wd)
                         else fmupd net_uid (c - 1, up) (bound_nets wd))\<rparr>"
  by (simp add: unbound_def)

text \<open>
  Claim C1, amended.  For a routed arc of a net whose stored uphill links lead from the sink
  over the nodes \<open>p\<close> to the driver: \<open>ripup_arc\<close> returns; at every node of \<open>p\<close> the use
  count of the net is one less than before, and the net is erased from \<open>bound_nets\<close> where
  the count was 1; the driver, which is not in \<open>p\<close>, and every other node are as they were;
  the \<open>routed\<close> flag of the arc is false.
\<close>

theorem ripup_arc_unbinds_route_below_driver:
  assumes "vec_at (nets s) (udata net) = Inr nd"
    and "vec_at (arcs nd) (int user) = Inr ad"
    and "routed ad"
    and "is_route s net (src_node nd) (sink_node ad) p"
  shows "\<exists>s'. ripup_arc s net user = Some (Inr s') \<and>
           (\<forall>n\<in>set p. \<exists>wd c up.
               node_data s n = Inr wd \<and>
               fmlookup (bound_nets wd) (udata net) = Some (c, up) \<and>
               node_data s' n =
                 Inr (wd\<lparr>bound_nets := (if c = 1 then fmdrop (udata net) (bound_nets wd)
                                         else fmupd (udata net) (c - 1, up) (bound_nets wd))\<rparr>)) \<and>
           (\<forall>n. n \<notin> set p \<longrightarrow> node_data s' n = node_data s n) \<and>
           src_node nd \<notin> set p \<and>
           vec_at (nets s') (udata net) = Inr (nd\<lparr>arcs := (arcs nd)[user := ad\<lparr>routed := False\<rparr>]\<rparr>)"
proof -
  let ?s1 = "fold (\<lambda>n s. node_data_update s n (unbound (udata net))) p s"
  let ?nd' = "nd\<lparr>arcs := (arcs nd)[user := ad\<lparr>routed := False\<rparr>]\<rparr>"
  let ?s' = "?s1\<lparr>nets := (nets s)[nat (udata net) := ?nd']\<rparr>"
  from assms(1) have uid: "0 \<le> udata net" "nat (udata net) < length (nets s)"
    and nd: "nets s ! nat (udata net) = nd"
    by (simp_all add: vec_at_Inr_iff)
  have loop: "ripup_arc_loop s net (src_node nd) (sink_node ad) = Some (Inr ?s1)"
    using assms(4) by (rule ripup_arc_loop_route)
  have run: "ripup_arc s net user = Some (Inr ?s')"
    using assms(1-3) by (simp add: ripup_arc_def loop nd)
  have dist: "distinct p" using assms(4) by (rule is_route_distinct)
  have bound: "\<forall>n\<in>set p. \<exists>wd b. node_data s n = Inr wd \<and> fmlookup (bound_nets wd) (udata net) = Some b"
    using assms(4) by (rule is_route_bound)
  then have valid: "\<forall>n\<in>set p. \<exists>wd. node_data s n = Inr wd" by blast
  have data: "node_data ?s1 m =
      (if m \<in> set p then (case node_data s m of Inl e \<Rightarrow> Inl e
                                | Inr wd \<Rightarrow> Inr (unbound (udata net) wd))
       else node_data s m)" for m
    using dist valid by (rule node_data_fold_update)
  have on: "\<exists>wd c up. node_data s n = Inr wd \<and>
               fmlookup (bound_nets wd) (udata net) = Some (c, up) \<and>
               node_data ?s' n =
                 Inr (wd\<lparr>bound_nets := (if c = 1 then fmdrop (udata net) (bound_nets wd)
                                         else fmupd (udata net) (c - 1, up) (bound_nets wd))\<rparr>)"
    if "n \<in> set p" for n
  proof -
    from bound that obtain wd b where
      w: "node_data s n = Inr wd" "fmlookup (bound_nets wd) (udata net) = Some b" by blast
    obtain c up where b: "b = (c, up)" by (cases b)
    from w b that show ?thesis by (simp add: data unbound_Some)
  qed
  have off: "\<forall>n. n \<notin> set p \<longrightarrow> node_data ?s' n = node_data s n"
    by (simp add: data)
  have src: "src_node nd \<notin> set p" using assms(4) by (rule is_route_not_src)
  have nets: "vec_at (nets ?s') (udata net) = Inr ?nd'"
    using uid by (simp add: vec_at_def)
  from run on off src nets show ?thesis by blast
qed

lemma ex_route: "is_route ex_state ex_net0 ex_n0 ex_n2 [ex_n2, ex_n1]"
  by (simp add: node_data_def node_index_def vec_at_def ex_state_def ex_grid_def ex_bound_def
        ex_net0_def ex_n0_def ex_n1_def ex_n2_def)

lemma ex_ripup_arc: "ripup_arc ex_state ex_net0 0 = Some (Inr ex_ripped)"
proof -
  have "fold (\<lambda>n s. node_data_update s n (unbound (udata ex_net0))) [ex_n2, ex_n1] ex_state =
        ex_grid (fmupd 0 (2, ex_n0) fmempty) (fmupd 0 (1, ex_n0) fmempty) fmempty True"
    by (simp add: node_data_update_def update2_def node_index_def unbound_def fmdrop_fmupd_same
          ex_state_def ex_grid_def ex_bound_def ex_net0_def ex_n1_def ex_n2_def)
  with ripup_arc_loop_route[OF ex_route]
  have "ripup_arc_loop ex_state ex_net0 ex_n0 ex_n2 =
        Some (Inr (ex_grid (fmupd 0 (2, ex_n0) fmempty) (fmupd 0 (1, ex_n0) fmempty) fmempty True))"
    by simp
  moreover have "vec_at (nets ex_state) (udata ex_net0) = Inr (ex_netdata True)"
    by (simp add: vec_at_def ex_state_def ex_grid_def ex_net0_def)
  ultimately show ?thesis
    by (simp add: ripup_arc_def vec_at_def ex_netdata_def ex_arc_def ex_ripped_def ex_grid_def
          ex_net0_def)
qed

text \<open>
  Claim C1, as stated: after \<open>ripup_arc\<close> no node of the path of the arc, the driver
  included, has the net in its \<open>bound_nets\<close>.  It fails in the example state for arc 0 of
  net 0, whose path is \<open>(2, 0, 0)\<close>, \<open>(1, 0, 0)\<close> and the driver \<open>(0, 0, 0)\<close>: after the
  rip-up the node \<open>(1, 0, 0)\<close>, which arc 1 uses too, and the driver still have net 0 in
  their \<open>bound_nets\<close>.
\<close>

theorem ripup_arc_leaves_net_bound_counterexample:
  "ripup_arc ex_state ex_net0 0 = Some (Inr ex_ripped) \<and>
   is_route ex_state ex_net0 ex_n0 ex_n2 [ex_n2, ex_n1] \<and>
   node_data ex_ripped ex_n1 = Inr (ex_bound (fmupd 0 (1, ex_n0) fmempty)) \<and>
   udata ex_net0 |\<in>| fmdom (bound_nets (ex_bound (fmupd 0 (1, ex_n0) fmempty))) \<and>
   node_data ex_ripped ex_n0 = Inr (ex_bound (fmupd 0 (2, ex_n0) fmempty)) \<and>
   udata ex_net0 |\<in>| fmdom (bound_nets (ex_bound (fmupd 0 (2, ex_n0) fmempty)))"
  using ex_ripup_arc ex_route
  by (simp add: node_data_def node_index_def vec_at_def ex_ripped_def ex_grid_def ex_bound_def
        ex_net0_def ex_n0_def ex_n1_def)

theorem ripup_arc_unbinds_route_below_driver_witness:
  "vec_at (nets ex_state) (udata ex_net0) = Inr (ex_netdata True) \<and>
   vec_at (arcs (ex_netdata True)) (int 0) = Inr (ex_arc ex_n2 True) \<and>
   routed (ex_arc ex_n2 True) \<and>
   is_route ex_state ex_net0 (src_node (ex_netdata True)) (sink_node (ex_arc ex_n2 True)) [ex_n2, ex_n1] \<and>
   (\<exists>s'. ripup_arc ex_state ex_net0 0 = Some (Inr s') \<and>
         node_data s' ex_n0 = node_data ex_state ex_n0 \<and>
         vec_at (nets s') (udata ex_net0) =
           Inr ((ex_netdata True)\<lparr>arcs := (arcs (ex_netdata True))[0 := (ex_arc ex_n2 True)\<lparr>routed := False\<rparr>]\<rparr>))"
proof -
  have h1: "vec_at (nets ex_state) (udata ex_net0) = Inr (ex_netdata True)"
    by (simp add: vec_at_def ex_state_def ex_grid_def ex_net0_def)
  have h2: "vec_at (arcs (ex_netdata True)) (int 0) = Inr (ex_arc ex_n2 True)"
    by (simp add: vec_at_def ex_netdata_def)
  have h3: "routed (ex_arc ex_n2 True)" by (simp add: ex_arc_def)
  have h4: "is_route ex_state ex_net0 (src_node (ex_netdata True)) (sink_node (ex_arc ex_n2 True))
              [ex_n2, ex_n1]"
    using ex_route by (simp add: ex_netdata_def ex_arc_def)
  have off: "ex_n0 \<notin> set [ex_n2, ex_n1]" by (simp add: ex_n0_def ex_n1_def ex_n2_def)
  from ripup_arc_unbinds_route_below_driver [OF h1 h2 h3 h4] off
  have "\<exists>s'. ripup_arc ex_state ex_net0 0 = Some (Inr s') \<and>
         node_data s' ex_n0 = node_data ex_state ex_n0 \<and>
         vec_at (nets s') (udata ex_net0) =
           Inr ((ex_netdata True)\<lparr>arcs := (arcs (ex_netdata True))[0 := (ex_arc ex_n2 True)\<lparr>routed := False\<rparr>]\<rparr>)"
    by blast
  with h1 h2 h3 h4 show ?thesis by blast
qed

end
